theory Spec2Isabelle
  imports Main "HOL-Library.Char_ord" "HOL-Library.List_Lexorder" "HOL-Library.Multiset"
begin

section \<open>The VNDK ABI test (abi/VtsVndkAbiTest.py)\<close>

text \<open>
  The module is Python 2. A \<open>str\<close> is a byte string, modelled as \<^typ>\<open>string\<close>
  (a list of 8-bit characters); byte strings compare lexicographically by byte value,
  which is the order that \<open>Char_ord\<close> and \<open>List_Lexorder\<close> put on \<^typ>\<open>string\<close>.
  Python integers are \<^typ>\<open>int\<close>.
\<close>

subsection \<open>Python string primitives used by the module\<close>

definition isspace :: "char \<Rightarrow> bool" where
  \<comment> \<open>the bytes that \<open>str.strip()\<close> removes: space, tab, newline, vertical tab,
      form feed, carriage return\<close>
  "isspace c = (c = CHR 0x20 \<or> c = CHR 0x09 \<or> c = CHR 0x0A \<or> c = CHR 0x0B
                \<or> c = CHR 0x0C \<or> c = CHR 0x0D)"

definition strip :: "string \<Rightarrow> string" where
  "strip s = rev (dropWhile isspace (rev (dropWhile isspace s)))"

fun readlines_from :: "string \<Rightarrow> string \<Rightarrow> string list" where
  \<comment> \<open>\<open>for line in dump_file\<close>: the text is cut after every newline, each line keeps its
      newline, and a last line without one is yielded when it is not empty\<close>
  "readlines_from [] cur = (if cur = [] then [] else [cur])"
| "readlines_from (c # cs) cur =
     (if c = CHR 0x0A then (cur @ [c]) # readlines_from cs []
      else readlines_from cs (cur @ [c]))"

definition file_lines :: "string \<Rightarrow> string list" where
  "file_lines text = readlines_from text []"

definition startswith :: "string \<Rightarrow> string \<Rightarrow> bool" where
  "startswith s p = (take (length p) s = p)"

definition endswith :: "string \<Rightarrow> string \<Rightarrow> bool" where
  "endswith s suf = (length suf \<le> length s \<and> drop (length s - length suf) s = suf)"

definition rpartition_head :: "string \<Rightarrow> string \<Rightarrow> string" where
  \<comment> \<open>\<open>s.rpartition(sep)[0]\<close>: what precedes the last occurrence of \<open>sep\<close>, and the
      empty string when \<open>sep\<close> does not occur\<close>
  "rpartition_head s sep =
     (case filter (\<lambda>i. take (length sep) (drop i s) = sep) (rev [0..<Suc (length s)]) of
        [] \<Rightarrow> []
      | i # _ \<Rightarrow> take i s)"

fun join :: "string \<Rightarrow> string list \<Rightarrow> string" where
  \<comment> \<open>\<open>sep.join(xs)\<close>\<close>
  "join sep [] = []"
| "join sep [x] = x"
| "join sep (x # y # ys) = x @ sep @ join sep (y # ys)"

definition path_join2 :: "string \<Rightarrow> string \<Rightarrow> string" where
  \<comment> \<open>one step of \<open>posixpath.join\<close>: an absolute component replaces what precedes it\<close>
  "path_join2 path b =
     (if startswith b ''/'' then b
      else if path = [] \<or> endswith path ''/'' then path @ b
      else path @ ''/'' @ b)"

definition path_join :: "string \<Rightarrow> string list \<Rightarrow> string" where
  \<comment> \<open>\<open>os.path.join(a, *p)\<close>\<close>
  "path_join a p = foldl path_join2 a p"

definition digit_char :: "nat \<Rightarrow> char" where
  "digit_char d = ''0123456789'' ! (d mod 10)"

fun str_nat :: "nat \<Rightarrow> string" where
  "str_nat n = (if n < 10 then [digit_char n] else str_nat (n div 10) @ [digit_char (n mod 10)])"

declare str_nat.simps [simp del]

definition str_int :: "int \<Rightarrow> string" where
  \<comment> \<open>\<open>str(off)\<close> of a Python integer\<close>
  "str_int i = (if i < 0 then CHR ''-'' # str_nat (nat (- i)) else str_nat (nat i))"

definition digits :: "char set" where
  "digits = set ''0123456789''"

definition offset_chars :: "char set" where
  \<comment> \<open>the characters of a comma-separated list of decimal integers\<close>
  "offset_chars = insert CHR ''-'' (insert CHR '','' digits)"

subsection \<open>Errors, log and environment\<close>

datatype error = IOError | ElfError | VtableError | TestFailure string

type_synonym vtable_entries = "(int \<times> string) list"

text \<open>
  A dict is the list of its items. For the dicts that the vtable parser returns the list
  is in the dict's iteration order; keys are looked up with \<^const>\<open>map_of\<close>.
\<close>

type_synonym vtables = "(string \<times> vtable_entries) list"

type_synonym vtable_mismatch = "string \<times> string \<times> string \<times> string"

text \<open>
  One constructor per logging call of the module, carrying the arguments of the call
  (the formatting of the message is left out).
\<close>

datatype log_entry =
    DebugLibSymbols string "string list"
  | DebugLibVtables string vtables
  | WarningUnknownDump string
  | InfoNotFound string
  | ExceptionCannotDiffSymbols string error
  | ExceptionCannotDiffVtables string error
  | ErrorMissingSymbols string "string list"
  | ErrorVtableDifference string "vtable_mismatch list"
  | InfoPass string
  | InfoCheck32
  | InfoCheck64

type_synonym log = "log_entry list"

text \<open>
  What the module imports and does not define: the file system, the ELF parser, the
  vtable parser and the helpers of the test runner. Each is a field of the environment.
  \<^item> \<open>read_file path\<close>: the text of \<open>open(path, "r")\<close>; \<open>None\<close> is \<open>IOError\<close>.
  \<^item> \<open>ListGlobalDynamicSymbols lib_path\<close>: \<open>ElfParser(lib_path)\<close> followed by
    \<open>ListGlobalDynamicSymbols()\<close>; \<open>None\<close> is \<open>ElfError\<close>.
  \<^item> \<open>ParseVtablesFromString dumper_dir text\<close> and
    \<open>ParseVtablesFromLibrary dumper_dir lib_path\<close>: the two methods of a
    \<open>VtableParser(dumper_dir)\<close>; \<open>None\<close> is \<open>VtableError\<close>.
  \<^item> \<open>iterate_files dir\<close>: the pairs (root directory, file name) that
    \<open>utils.iterate_files(dir)\<close> yields.
  \<^item> \<open>isdir\<close> and \<open>relpath\<close>: \<open>os.path.isdir\<close> and \<open>os.path.relpath\<close>.
\<close>

record env =
  read_file :: "string \<Rightarrow> string option"
  ListGlobalDynamicSymbols :: "string \<Rightarrow> string list option"
  ParseVtablesFromString :: "string \<Rightarrow> string \<Rightarrow> vtables option"
  ParseVtablesFromLibrary :: "string \<Rightarrow> string \<Rightarrow> vtables option"
  iterate_files :: "string \<Rightarrow> (string \<times> string) list"
  isdir :: "string \<Rightarrow> bool"
  relpath :: "string \<Rightarrow> string \<Rightarrow> string"

text \<open>The attributes of the test object that the methods read.\<close>

record test_object =
  cpu_abi :: string
  is64Bit :: bool
  temp_dir :: string
  vendor_lib :: string
  vendor_lib64 :: string
  system_lib :: string
  system_lib64 :: string
  sdk_version :: string
  data_file_path :: string

subsection \<open>\<open>_DiffSymbols\<close>\<close>

definition dump_symbols_of :: "string \<Rightarrow> string set" where
  \<comment> \<open>\<open>set(line.strip() for line in dump_file if line.strip())\<close>\<close>
  "dump_symbols_of text = set (map strip (filter (\<lambda>line. strip line \<noteq> []) (file_lines text)))"

definition DiffSymbols ::
  "env \<Rightarrow> string \<Rightarrow> string \<Rightarrow> log \<Rightarrow> (error + string list) \<times> log" where
  "DiffSymbols e dump_path lib_path lg =
     (case read_file e dump_path of
        None \<Rightarrow> (Inl IOError, lg)
      | Some text \<Rightarrow>
          (let dump_symbols = dump_symbols_of text in
           case ListGlobalDynamicSymbols e lib_path of
             None \<Rightarrow> (Inl ElfError, lg)
           | Some lib_symbols \<Rightarrow>
               (Inr (sorted_list_of_set (dump_symbols - set lib_symbols)),
                lg @ [DebugLibSymbols lib_path lib_symbols])))"

text \<open>
  The symbol dump as the specification words it (sections 4.1 and 6): one symbol per
  line, trimmed, blank and whitespace-only lines ignored. These definitions do not use
  \<open>strip\<close> or \<open>file_lines\<close>. \<open>whitespace\<close> is Python 2's \<open>string.whitespace\<close>. A list of
  lines is the split of a text when the lines concatenate to the text, no line is empty,
  a newline occurs only as the last character of a line, and every line but the last
  ends with one. A symbol is the trimmed form of a line when it is not empty, neither
  starts nor ends with whitespace, and the line is the symbol with whitespace before and
  after it.
\<close>

definition whitespace :: "char set" where
  "whitespace = {CHR 0x09, CHR 0x0A, CHR 0x0B, CHR 0x0C, CHR 0x0D, CHR 0x20}"

definition is_line_split :: "string \<Rightarrow> string list \<Rightarrow> bool" where
  "is_line_split contents ls =
     (concat ls = contents
      \<and> (\<forall>l \<in> set ls. l \<noteq> [] \<and> CHR 0x0A \<notin> set (butlast l))
      \<and> (\<forall>l \<in> set (butlast ls). last l = CHR 0x0A))"

definition trimmed :: "string \<Rightarrow> string \<Rightarrow> bool" where
  "trimmed line s =
     (s \<noteq> [] \<and> hd s \<notin> whitespace \<and> last s \<notin> whitespace
      \<and> (\<exists>pre post. line = pre @ s @ post \<and> set pre \<subseteq> whitespace \<and> set post \<subseteq> whitespace))"

subsection \<open>\<open>_DiffVtables\<close>\<close>

fun build_inv_vtable ::
  "vtable_entries \<Rightarrow> (string \<rightharpoonup> int list) \<Rightarrow> (string \<rightharpoonup> int list)" where
  \<comment> \<open>\<open>for off, symb in lib_vtables[vtable]\<close>: the first offset of a symbol starts its
      list, a later one is appended\<close>
  "build_inv_vtable [] lib_inv_vtable = lib_inv_vtable"
| "build_inv_vtable ((off, symb) # rest) lib_inv_vtable =
     build_inv_vtable rest
       (case lib_inv_vtable symb of
          None \<Rightarrow> lib_inv_vtable(symb \<mapsto> [off])
        | Some offs \<Rightarrow> lib_inv_vtable(symb \<mapsto> offs @ [off]))"

definition lib_inv_vtable_of :: "vtables \<Rightarrow> string \<Rightarrow> (string \<rightharpoonup> int list)" where
  "lib_inv_vtable_of lib_vtables vtable =
     (case map_of lib_vtables vtable of
        None \<Rightarrow> Map.empty
      | Some entries \<Rightarrow> build_inv_vtable entries Map.empty)"

definition diff_entry ::
  "string \<Rightarrow> (string \<rightharpoonup> int list) \<Rightarrow> int \<times> string \<Rightarrow> vtable_mismatch list
     \<Rightarrow> vtable_mismatch list" where
  \<comment> \<open>the body of \<open>for off, sym in dump_symbols\<close>, appending to \<open>diff\<close>\<close>
  "diff_entry vtable lib_inv_vtable p diff =
     (case p of (off, symb) \<Rightarrow>
        (case lib_inv_vtable symb of
           None \<Rightarrow> diff @ [(vtable, symb, str_int off, ''missing'')]
         | Some offs \<Rightarrow>
             if off \<notin> set offs
             then diff @ [(vtable, symb, str_int off, join '','' (map str_int offs))]
             else diff))"

fun diff_dump_symbols ::
  "string \<Rightarrow> (string \<rightharpoonup> int list) \<Rightarrow> vtable_entries \<Rightarrow> vtable_mismatch list
     \<Rightarrow> vtable_mismatch list" where
  "diff_dump_symbols vtable lib_inv_vtable [] diff = diff"
| "diff_dump_symbols vtable lib_inv_vtable (p # rest) diff =
     diff_dump_symbols vtable lib_inv_vtable rest (diff_entry vtable lib_inv_vtable p diff)"

fun diff_vtables_loop :: "vtables \<Rightarrow> vtables \<Rightarrow> vtable_mismatch list \<Rightarrow> vtable_mismatch list" where
  \<comment> \<open>\<open>for vtable, dump_symbols in dump_vtables.iteritems()\<close>\<close>
  "diff_vtables_loop [] lib_vtables diff = diff"
| "diff_vtables_loop ((vtable, dump_symbols) # rest) lib_vtables diff =
     diff_vtables_loop rest lib_vtables
       (diff_dump_symbols vtable (lib_inv_vtable_of lib_vtables vtable) dump_symbols diff)"

definition DiffVtables ::
  "env \<Rightarrow> test_object \<Rightarrow> string \<Rightarrow> string \<Rightarrow> log \<Rightarrow> (error + vtable_mismatch list) \<times> log" where
  "DiffVtables e self dump_path lib_path lg =
     (let dumper_dir = path_join (data_file_path self) [''host''] in
      case read_file e dump_path of
        None \<Rightarrow> (Inl IOError, lg)
      | Some text \<Rightarrow>
          (case ParseVtablesFromString e dumper_dir text of
             None \<Rightarrow> (Inl VtableError, lg)
           | Some dump_vtables \<Rightarrow>
               (case ParseVtablesFromLibrary e dumper_dir lib_path of
                  None \<Rightarrow> (Inl VtableError, lg)
                | Some lib_vtables \<Rightarrow>
                    (Inr (diff_vtables_loop dump_vtables lib_vtables []),
                     lg @ [DebugLibVtables lib_path lib_vtables]))))"

text \<open>
  The vtable differ as the specification words it (section 4.3), to be compared with
  the loops above: the inverse index of a vtable of the actual layout gives, for a symbol,
  the offsets at which it appears, in the order of the entries; a golden pair yields a
  record with \<open>missing\<close> when that list is empty, a record with the joined list when the
  expected offset is not in it, and nothing otherwise.
\<close>

definition offsets_of :: "vtable_entries \<Rightarrow> string \<Rightarrow> int list" where
  "offsets_of entries symb = map fst (filter (\<lambda>p. snd p = symb) entries)"

definition actual_offsets :: "vtables \<Rightarrow> string \<Rightarrow> string \<Rightarrow> int list" where
  "actual_offsets actual vtable symb =
     (case map_of actual vtable of None \<Rightarrow> [] | Some entries \<Rightarrow> offsets_of entries symb)"

definition spec_mismatch :: "vtables \<Rightarrow> string \<Rightarrow> int \<times> string \<Rightarrow> vtable_mismatch list" where
  "spec_mismatch actual vtable p =
     (case p of (off, symb) \<Rightarrow>
        (let offs = actual_offsets actual vtable symb in
         if offs = [] then [(vtable, symb, str_int off, ''missing'')]
         else if off \<notin> set offs
         then [(vtable, symb, str_int off, join '','' (map str_int offs))]
         else []))"

definition spec_DiffVtables :: "vtables \<Rightarrow> vtables \<Rightarrow> vtable_mismatch list" where
  "spec_DiffVtables golden actual =
     concat (map (\<lambda>(vtable, dump_symbols). concat (map (spec_mismatch actual vtable) dump_symbols))
               golden)"

subsection \<open>\<open>_ScanLibDirs\<close>\<close>

text \<open>
  \<open>lib_paths\<close> is the dict the method iterates: it is kept as the list of its items,
  an assignment to a key that is present replacing the value in place and an assignment
  to a new key adding an item at the end. Python 2 iterates a dict in an order of its
  own; the loop over \<open>lib_paths\<close> below takes the items in the order of the list, and
  the count it returns is shown not to depend on that order. \<open>symbol_dumps\<close> and
  \<open>vtable_dumps\<close> are only looked up, so they are maps.
\<close>

fun dict_set :: "'k \<Rightarrow> 'v \<Rightarrow> ('k \<times> 'v) list \<Rightarrow> ('k \<times> 'v) list" where
  "dict_set k v [] = [(k, v)]"
| "dict_set k v ((k', v') # d) = (if k' = k then (k, v) # d else (k', v') # dict_set k v d)"

record dumps =
  symbol_dumps :: "string \<rightharpoonup> string"
  vtable_dumps :: "string \<rightharpoonup> string"
  lib_paths :: "(string \<times> string option) list"

definition no_dumps :: dumps where
  "no_dumps = \<lparr>symbol_dumps = Map.empty, vtable_dumps = Map.empty, lib_paths = []\<rparr>"

definition register_dump :: "string \<times> string \<Rightarrow> dumps \<times> log \<Rightarrow> dumps \<times> log" where
  \<comment> \<open>the body of \<open>for root_dir, file_name in utils.iterate_files(dump_dir)\<close>\<close>
  "register_dump f st =
     (case f of (root_dir, file_name) \<Rightarrow>
      case st of (d, lg) \<Rightarrow>
        (let dump_path = path_join root_dir [file_name] in
         if endswith file_name ''_symbol.dump'' then
           (let lib_name = rpartition_head file_name ''_symbol.dump'' in
            (d\<lparr>symbol_dumps := (symbol_dumps d)(lib_name \<mapsto> dump_path),
               lib_paths := dict_set lib_name None (lib_paths d)\<rparr>, lg))
         else if endswith file_name ''_vtable.dump'' then
           (let lib_name = rpartition_head file_name ''_vtable.dump'' in
            (d\<lparr>vtable_dumps := (vtable_dumps d)(lib_name \<mapsto> dump_path),
               lib_paths := dict_set lib_name None (lib_paths d)\<rparr>, lg))
         else (d, lg @ [WarningUnknownDump dump_path])))"

definition falsy :: "string option \<Rightarrow> bool" where
  \<comment> \<open>\<open>not lib_path\<close>: true of \<open>None\<close> and of the empty string\<close>
  "falsy v = (v = None \<or> v = Some [])"

definition resolve_file ::
  "string \<times> string \<Rightarrow> (string \<times> string option) list \<Rightarrow> (string \<times> string option) list" where
  \<comment> \<open>the body of \<open>for root_dir, lib_name in utils.iterate_files(lib_dir)\<close>\<close>
  "resolve_file f lp =
     (case f of (root_dir, lib_name) \<Rightarrow>
        (case map_of lp lib_name of
           None \<Rightarrow> lp
         | Some v \<Rightarrow>
             if falsy v then dict_set lib_name (Some (path_join root_dir [lib_name])) lp
             else lp))"

definition resolve_dir ::
  "env \<Rightarrow> string \<Rightarrow> (string \<times> string option) list \<Rightarrow> (string \<times> string option) list" where
  "resolve_dir e lib_dir lp = fold resolve_file (iterate_files e lib_dir) lp"

definition resolve_dirs ::
  "env \<Rightarrow> string list \<Rightarrow> (string \<times> string option) list \<Rightarrow> (string \<times> string option) list" where
  \<comment> \<open>\<open>for lib_dir in lib_dirs\<close>\<close>
  "resolve_dirs e lib_dirs lp = fold (resolve_dir e) lib_dirs lp"

text \<open>The three local variables of the loop over the libraries.\<close>

record lib_diff =
  has_exception :: bool
  missing_symbols :: "string list"
  vtable_diff :: "vtable_mismatch list"

definition compare_symbols ::
  "env \<Rightarrow> dumps \<Rightarrow> string \<Rightarrow> string \<Rightarrow> string \<Rightarrow> lib_diff \<Rightarrow> log
     \<Rightarrow> (error + lib_diff) \<times> log" where
  \<comment> \<open>\<open>if lib_name in symbol_dumps: try ... except (IOError, elf_parser.ElfError)\<close>\<close>
  "compare_symbols e d lib_name lib_path rel_path r lg =
     (case symbol_dumps d lib_name of
        None \<Rightarrow> (Inr r, lg)
      | Some dump_path \<Rightarrow>
          (case DiffSymbols e dump_path lib_path lg of
             (Inr syms, lg') \<Rightarrow> (Inr (r\<lparr>missing_symbols := syms\<rparr>), lg')
           | (Inl err, lg') \<Rightarrow>
               if err = IOError \<or> err = ElfError
               then (Inr (r\<lparr>has_exception := True\<rparr>),
                     lg' @ [ExceptionCannotDiffSymbols rel_path err])
               else (Inl err, lg')))"

definition compare_vtables ::
  "env \<Rightarrow> test_object \<Rightarrow> dumps \<Rightarrow> string \<Rightarrow> string \<Rightarrow> string \<Rightarrow> lib_diff \<Rightarrow> log
     \<Rightarrow> (error + lib_diff) \<times> log" where
  \<comment> \<open>\<open>if lib_name in vtable_dumps: try ... except (IOError, vtable_parser.VtableError)\<close>\<close>
  "compare_vtables e self d lib_name lib_path rel_path r lg =
     (case vtable_dumps d lib_name of
        None \<Rightarrow> (Inr r, lg)
      | Some dump_path \<Rightarrow>
          (case DiffVtables e self dump_path lib_path lg of
             (Inr vd, lg') \<Rightarrow> (Inr (r\<lparr>vtable_diff := vd\<rparr>), lg')
           | (Inl err, lg') \<Rightarrow>
               if err = IOError \<or> err = VtableError
               then (Inr (r\<lparr>has_exception := True\<rparr>),
                     lg' @ [ExceptionCannotDiffVtables rel_path err])
               else (Inl err, lg')))"

definition diff_lib ::
  "env \<Rightarrow> test_object \<Rightarrow> dumps \<Rightarrow> string \<Rightarrow> string \<Rightarrow> log \<Rightarrow> (error + lib_diff) \<times> log" where
  \<comment> \<open>from \<open>has_exception = False\<close> to the end of the second \<open>try\<close>\<close>
  "diff_lib e self d lib_name lib_path lg =
     (let rel_path = relpath e lib_path (temp_dir self);
          r0 = \<lparr>has_exception = False, missing_symbols = [], vtable_diff = []\<rparr>
      in case compare_symbols e d lib_name lib_path rel_path r0 lg of
           (Inl err, lg1) \<Rightarrow> (Inl err, lg1)
         | (Inr r1, lg1) \<Rightarrow> compare_vtables e self d lib_name lib_path rel_path r1 lg1)"

definition incompatible :: "lib_diff \<Rightarrow> bool" where
  \<comment> \<open>\<open>has_exception or missing_symbols or vtable_diff\<close>\<close>
  "incompatible r = (has_exception r \<or> missing_symbols r \<noteq> [] \<or> vtable_diff r \<noteq> [])"

definition report_lib :: "string \<Rightarrow> lib_diff \<Rightarrow> nat \<Rightarrow> log \<Rightarrow> nat \<times> log" where
  \<comment> \<open>the three \<open>if\<close> statements that end the loop body\<close>
  "report_lib rel_path r error_count lg =
     (let lg1 = (if missing_symbols r \<noteq> []
                 then lg @ [ErrorMissingSymbols rel_path (missing_symbols r)] else lg);
          lg2 = (if vtable_diff r \<noteq> []
                 then lg1 @ [ErrorVtableDifference rel_path (vtable_diff r)] else lg1)
      in if incompatible r then (error_count + 1, lg2)
         else (error_count, lg2 @ [InfoPass rel_path]))"

definition scan_lib ::
  "env \<Rightarrow> test_object \<Rightarrow> dumps \<Rightarrow> string \<times> string option \<Rightarrow> nat \<Rightarrow> log
     \<Rightarrow> (error + nat) \<times> log" where
  \<comment> \<open>the body of \<open>for lib_name, lib_path in lib_paths.iteritems()\<close>\<close>
  "scan_lib e self d item error_count lg =
     (case item of (lib_name, lib_path_opt) \<Rightarrow>
        (case lib_path_opt of
           None \<Rightarrow> (Inr error_count, lg @ [InfoNotFound lib_name])
         | Some lib_path \<Rightarrow>
             if lib_path = [] then (Inr error_count, lg @ [InfoNotFound lib_name])
             else (case diff_lib e self d lib_name lib_path lg of
                     (Inl err, lg') \<Rightarrow> (Inl err, lg')
                   | (Inr r, lg') \<Rightarrow>
                       (case report_lib (relpath e lib_path (temp_dir self)) r error_count lg' of
                          (n, lg'') \<Rightarrow> (Inr n, lg'')))))"

fun scan_libs ::
  "env \<Rightarrow> test_object \<Rightarrow> dumps \<Rightarrow> (string \<times> string option) list \<Rightarrow> nat \<Rightarrow> log
     \<Rightarrow> (error + nat) \<times> log" where
  \<comment> \<open>the loop over the items; an exception that is not caught ends it\<close>
  "scan_libs e self d [] error_count lg = (Inr error_count, lg)"
| "scan_libs e self d (item # rest) error_count lg =
     (case scan_lib e self d item error_count lg of
        (Inl err, lg') \<Rightarrow> (Inl err, lg')
      | (Inr error_count', lg') \<Rightarrow> scan_libs e self d rest error_count' lg')"

definition collect_dumps :: "env \<Rightarrow> string \<Rightarrow> log \<Rightarrow> dumps \<times> log" where
  "collect_dumps e dump_dir lg = fold register_dump (iterate_files e dump_dir) (no_dumps, lg)"

definition ScanLibDirs ::
  "env \<Rightarrow> test_object \<Rightarrow> string \<Rightarrow> string list \<Rightarrow> log \<Rightarrow> (error + nat) \<times> log" where
  "ScanLibDirs e self dump_dir lib_dirs lg =
     (case collect_dumps e dump_dir lg of
        (d, lg1) \<Rightarrow>
          (let d' = d\<lparr>lib_paths := resolve_dirs e lib_dirs (lib_paths d)\<rparr>
           in scan_libs e self d' (lib_paths d') 0 lg1))"

subsection \<open>\<open>testAbiCompatibility\<close>\<close>

definition DUMP_DIR :: string where
  "DUMP_DIR = path_join ''vts'' [''testcases'', ''vndk'', ''golden'']"

definition abi_names :: "string \<Rightarrow> (string \<times> string) option" where
  \<comment> \<open>\<open>abi_32, abi_64\<close>; \<open>None\<close> where the method calls \<open>asserts.fail\<close>\<close>
  "abi_names abi =
     (if startswith abi ''arm'' then Some (''arm'', ''arm64'')
      else if startswith abi ''x86'' then Some (''x86'', ''x86_64'')
      else if startswith abi ''mips'' then Some (''mips'', ''mips64'')
      else None)"

definition no_dump_files :: "test_object \<Rightarrow> error" where
  "no_dump_files self = TestFailure (''No dump files for SDK version '' @ sdk_version self)"

definition scan_64 ::
  "env \<Rightarrow> test_object \<Rightarrow> string \<Rightarrow> nat \<Rightarrow> log \<Rightarrow> (error + nat) \<times> log" where
  \<comment> \<open>\<open>if self._dut.is64Bit: ...\<close>\<close>
  "scan_64 e self dump_dir_64 error_count lg =
     (if is64Bit self then
        (let lg1 = lg @ [InfoCheck64] in
         if \<not> isdir e dump_dir_64 then (Inl (no_dump_files self), lg1)
         else (case ScanLibDirs e self dump_dir_64 [vendor_lib64 self, system_lib64 self] lg1 of
                 (Inl err, lg2) \<Rightarrow> (Inl err, lg2)
               | (Inr n, lg2) \<Rightarrow> (Inr (error_count + n), lg2)))
      else (Inr error_count, lg))"

definition testAbiCompatibility :: "env \<Rightarrow> test_object \<Rightarrow> log \<Rightarrow> (error + unit) \<times> log" where
  "testAbiCompatibility e self lg =
     (case abi_names (cpu_abi self) of
        None \<Rightarrow> (Inl (TestFailure (''Unknown ABI '' @ cpu_abi self)), lg)
      | Some (abi_32, abi_64) \<Rightarrow>
          (let dump_dir_32 = path_join DUMP_DIR [sdk_version self, abi_32];
               dump_dir_64 = path_join DUMP_DIR [sdk_version self, abi_64];
               lg1 = lg @ [InfoCheck32]
           in if \<not> isdir e dump_dir_32 then (Inl (no_dump_files self), lg1)
              else (case ScanLibDirs e self dump_dir_32 [vendor_lib self, system_lib self] lg1 of
                      (Inl err, lg2) \<Rightarrow> (Inl err, lg2)
                    | (Inr error_count, lg2) \<Rightarrow>
                        (case scan_64 e self dump_dir_64 error_count lg2 of
                           (Inl err, lg3) \<Rightarrow> (Inl err, lg3)
                         | (Inr error_count', lg3) \<Rightarrow>
                             if error_count' = 0 then (Inr (), lg3)
                             else (Inl (TestFailure (''Total number of errors: ''
                                                     @ str_int (int error_count'))), lg3)))))"

subsection \<open>What a scan returns, stated without its log\<close>

text \<open>
  The value of a differ does not depend on the log, so the outcome of diffing one library
  can be named on its own: \<open>None\<close> when there is no dump of that kind for the library,
  otherwise what the differ returns or raises.
\<close>

definition symbols_outcome :: "env \<Rightarrow> dumps \<Rightarrow> string \<Rightarrow> string \<Rightarrow> (error + string list) option" where
  "symbols_outcome e d lib_name lib_path =
     map_option (\<lambda>dump_path. fst (DiffSymbols e dump_path lib_path [])) (symbol_dumps d lib_name)"

definition vtables_outcome ::
  "env \<Rightarrow> test_object \<Rightarrow> dumps \<Rightarrow> string \<Rightarrow> string \<Rightarrow> (error + vtable_mismatch list) option" where
  "vtables_outcome e self d lib_name lib_path =
     map_option (\<lambda>dump_path. fst (DiffVtables e self dump_path lib_path [])) (vtable_dumps d lib_name)"

definition raised :: "(error + 'a) option \<Rightarrow> bool" where
  "raised x = (case x of Some (Inl err) \<Rightarrow> True | _ \<Rightarrow> False)"

text \<open>The values of the three local variables at the end of the two \<open>try\<close> blocks.\<close>

definition expected_diff :: "env \<Rightarrow> test_object \<Rightarrow> dumps \<Rightarrow> string \<Rightarrow> string \<Rightarrow> lib_diff" where
  "expected_diff e self d lib_name lib_path =
     \<lparr>has_exception =
        (raised (symbols_outcome e d lib_name lib_path)
         \<or> raised (vtables_outcome e self d lib_name lib_path)),
      missing_symbols =
        (case symbols_outcome e d lib_name lib_path of Some (Inr syms) \<Rightarrow> syms | _ \<Rightarrow> []),
      vtable_diff =
        (case vtables_outcome e self d lib_name lib_path of Some (Inr vd) \<Rightarrow> vd | _ \<Rightarrow> [])\<rparr>"

text \<open>The items of \<open>lib_paths\<close> at which the loop adds one to \<open>error_count\<close>.\<close>

definition lib_incompatible :: "env \<Rightarrow> test_object \<Rightarrow> dumps \<Rightarrow> string \<times> string option \<Rightarrow> bool" where
  "lib_incompatible e self d item =
     (case item of
        (lib_name, None) \<Rightarrow> False
      | (lib_name, Some lib_path) \<Rightarrow>
          lib_path \<noteq> [] \<and> incompatible (expected_diff e self d lib_name lib_path))"

text \<open>
  The dicts after the first two loops of \<open>_ScanLibDirs\<close>, and the number of items of
  \<open>lib_paths\<close> that the third loop counts.
\<close>

definition resolved_dumps :: "env \<Rightarrow> string \<Rightarrow> string list \<Rightarrow> dumps" where
  "resolved_dumps e dump_dir lib_dirs =
     (let d = fst (collect_dumps e dump_dir [])
      in d\<lparr>lib_paths := resolve_dirs e lib_dirs (lib_paths d)\<rparr>)"

definition incompatible_count :: "env \<Rightarrow> test_object \<Rightarrow> string \<Rightarrow> string list \<Rightarrow> nat" where
  "incompatible_count e self dump_dir lib_dirs =
     (let d = resolved_dumps e dump_dir lib_dirs
      in length (filter (lib_incompatible e self d) (lib_paths d)))"

text \<open>
  \<open>lib_paths\<close> after the first loop: every key once, every value \<open>None\<close>.
\<close>

definition fresh_lib_paths :: "(string \<times> string option) list \<Rightarrow> bool" where
  "fresh_lib_paths lp = (distinct (map fst lp) \<and> (\<forall>p \<in> set lp. snd p = None))"

text \<open>
  The path of the first file named \<open>lib_name\<close> in a listing of (root directory, file
  name) pairs, joined as the second loop joins it.
\<close>

definition first_match :: "string \<Rightarrow> (string \<times> string) list \<Rightarrow> string option" where
  "first_match lib_name files =
     (case find (\<lambda>f. snd f = lib_name) files of
        None \<Rightarrow> None
      | Some f \<Rightarrow> Some (path_join (fst f) [lib_name]))"

text \<open>
  The log entries that are written while a library is processed (by the loop over
  \<open>lib_paths\<close> and by the differs it calls).
\<close>

definition library_entry :: "log_entry \<Rightarrow> bool" where
  "library_entry x =
     (case x of
        WarningUnknownDump p \<Rightarrow> False
      | InfoCheck32 \<Rightarrow> False
      | InfoCheck64 \<Rightarrow> False
      | _ \<Rightarrow> True)"

subsection \<open>A concrete device and golden directory\<close>

text \<open>
  A 32-bit golden directory with dumps for four libraries and a stray file. The symbol
  dump of \<open>libfoo.so\<close> has lines that end with CR LF, lines with tabs, vertical tabs and
  form feeds around the symbol, a repeated symbol, blank and whitespace-only lines, a
  symbol with a space inside, and a last line without a newline. \<open>libfoo.so\<close>
  is found in the vendor and in the system directory, \<open>libbar.so\<close> below the system
  directory, \<open>libqux.so\<close> in the system directory with a symbol dump that cannot be
  read, and \<open>libbaz.so\<close> nowhere. There is no 64-bit golden directory.
\<close>

definition demo_golden :: string where
  "demo_golden = ''vts/testcases/vndk/golden/26/arm''"

definition demo_symbol_dump :: string where
  "demo_symbol_dump =
     ''foo'' @ [CHR 0x0D, CHR 0x0A]
     @ [CHR 0x09] @ '' bar '' @ [CHR 0x0B, CHR 0x0C, CHR 0x0A]
     @ ''  foo '' @ [CHR 0x0A]
     @ [CHR 0x0A]
     @ '' '' @ [CHR 0x09, CHR 0x0D, CHR 0x0A]
     @ ''q r''"

definition demo_env :: env where
  "demo_env =
     \<lparr>read_file = (\<lambda>p.
        if p = ''vts/testcases/vndk/golden/26/arm/libfoo.so_symbol.dump''

        then Some demo_symbol_dump
        else if p = ''vts/testcases/vndk/golden/26/arm/libfoo.so_vtable.dump''
        then Some ''vtables of libfoo''
        else if p = ''vts/testcases/vndk/golden/26/arm/libbar.so_symbol.dump''
        then Some ''a\<newline>''
        else None),
      ListGlobalDynamicSymbols = (\<lambda>p.
        if p = ''/tmp/vendor_lib/libfoo.so'' then Some [''foo'', ''q r'']
        else if p = ''/tmp/system_lib/hw/libbar.so'' then Some [''a'', ''b'']
        else None),
      ParseVtablesFromString = (\<lambda>dumper_dir text.
        if text = ''vtables of libfoo'' then Some [(''V'', [(16, ''f''), (24, ''f'')])]
        else None),
      ParseVtablesFromLibrary = (\<lambda>dumper_dir p.
        if p = ''/tmp/vendor_lib/libfoo.so''
        then Some [(''V'', [(8, ''f''), (16, ''f'')]), (''W'', [(0, ''g'')])]
        else None),
      iterate_files = (\<lambda>d.
        if d = ''vts/testcases/vndk/golden/26/arm''
        then [(d, ''libfoo.so_symbol.dump''), (d, ''libfoo.so_vtable.dump''),
              (d, ''libbar.so_symbol.dump''), (d, ''libbaz.so_vtable.dump''),
              (d, ''libqux.so_symbol.dump''), (d, ''README'')]
        else if d = ''/tmp/vendor_lib'' then [(d, ''libfoo.so'')]
        else if d = ''/tmp/system_lib''
        then [(d, ''libfoo.so''), (d @ ''/hw'', ''libbar.so''), (d, ''libqux.so'')]
        else []),
      isdir = (\<lambda>d. d = ''vts/testcases/vndk/golden/26/arm''),
      relpath = (\<lambda>p start. drop (Suc (length start)) p)\<rparr>"


definition demo_self :: test_object where
  "demo_self =
     \<lparr>cpu_abi = ''arm64-v8a'', is64Bit = True, temp_dir = ''/tmp'',
      vendor_lib = ''/tmp/vendor_lib'', vendor_lib64 = ''/tmp/vendor_lib64'',
      system_lib = ''/tmp/system_lib'', system_lib64 = ''/tmp/system_lib64'',
      sdk_version = ''26'', data_file_path = ''/data''\<rparr>"

definition demo_lib_dirs :: "string list" where
  "demo_lib_dirs = [''/tmp/vendor_lib'', ''/tmp/system_lib'']"

definition demo_dumps :: dumps where
  "demo_dumps = resolved_dumps demo_env demo_golden demo_lib_dirs"

section \<open>Properties\<close>

subsection \<open>Lines and symbols of a dump\<close>

lemma concat_readlines_from: "concat (readlines_from s cur) = cur @ s"
  by (induction s arbitrary: cur) auto

lemma concat_file_lines: "concat (file_lines text) = text"
  by (simp add: file_lines_def concat_readlines_from)

lemma dump_symbols_of_eq:
  "dump_symbols_of text = {s. (\<exists>line \<in> set (file_lines text). s = strip line) \<and> s \<noteq> []}"
  by (auto simp: dump_symbols_of_def)

lemma finite_dump_symbols_of: "finite (dump_symbols_of text)"
  by (simp add: dump_symbols_of_def)

lemma isspace_whitespace: "isspace c \<longleftrightarrow> c \<in> whitespace"
  by (auto simp: isspace_def whitespace_def)

lemma strip_decomp:
  "\<exists>pre post. line = pre @ strip line @ post \<and> set pre \<subseteq> whitespace \<and> set post \<subseteq> whitespace"
proof -
  let ?m = "dropWhile isspace line"
  have a: "line = takeWhile isspace line @ ?m" by simp
  have b: "rev ?m = takeWhile isspace (rev ?m) @ dropWhile isspace (rev ?m)" by simp
  have "?m = rev (rev ?m)" by simp
  also have "\<dots> = rev (takeWhile isspace (rev ?m) @ dropWhile isspace (rev ?m))"
    by (simp only: takeWhile_dropWhile_id)
  also have "\<dots> = strip line @ rev (takeWhile isspace (rev ?m))"
    by (simp only: rev_append strip_def)
  finally have c: "?m = strip line @ rev (takeWhile isspace (rev ?m))" .
  have p1: "set (takeWhile isspace line) \<subseteq> whitespace"
    by (auto dest: set_takeWhileD simp: isspace_whitespace)
  have p2: "set (rev (takeWhile isspace (rev ?m))) \<subseteq> whitespace"
    by (auto dest: set_takeWhileD simp: isspace_whitespace)
  from a c have "line = takeWhile isspace line @ strip line @ rev (takeWhile isspace (rev ?m))"
    by simp
  with p1 p2 show ?thesis by blast
qed

lemma hd_strip: "strip line \<noteq> [] \<Longrightarrow> hd (strip line) \<notin> whitespace"
proof -
  assume ne: "strip line \<noteq> []"
  let ?m = "dropWhile isspace line"
  let ?k = "dropWhile isspace (rev ?m)"
  have s: "strip line = rev ?k" by (simp add: strip_def)
  from ne s have kne: "?k \<noteq> []" by simp
  have mne: "?m \<noteq> []"
  proof
    assume e: "?m = []"
    have "?k = dropWhile isspace (rev [])" by (simp only: e)
    then have "?k = []" by simp
    with kne show False ..
  qed
  have "\<exists>zs. ?m = strip line @ zs"
  proof -
    have "rev ?m = takeWhile isspace (rev ?m) @ ?k" by simp
    then have "rev (rev ?m) = rev (takeWhile isspace (rev ?m) @ ?k)" by (rule arg_cong)
    then have "?m = strip line @ rev (takeWhile isspace (rev ?m))"
      by (simp only: rev_append rev_rev_ident s)
    then show ?thesis by blast
  qed
  then obtain zs where "?m = strip line @ zs" by blast
  with ne have "hd (strip line) = hd ?m" by (metis hd_append2)
  moreover from mne have "\<not> isspace (hd ?m)" by (rule hd_dropWhile)
  ultimately show ?thesis by (simp add: isspace_whitespace)
qed

lemma last_strip: "strip line \<noteq> [] \<Longrightarrow> last (strip line) \<notin> whitespace"
proof -
  assume ne: "strip line \<noteq> []"
  let ?k = "dropWhile isspace (rev (dropWhile isspace line))"
  have s: "strip line = rev ?k" by (simp add: strip_def)
  from ne s have kne: "?k \<noteq> []" by simp
  then have "\<not> isspace (hd ?k)" by (rule hd_dropWhile)
  moreover from kne have "last (rev ?k) = hd ?k" by (simp add: last_rev)
  ultimately show ?thesis by (simp add: s isspace_whitespace)
qed

lemma strip_unique:
  assumes "line = pre @ s @ post" and "set pre \<subseteq> whitespace" and "set post \<subseteq> whitespace"
    and "s \<noteq> []" and "hd s \<notin> whitespace" and "last s \<notin> whitespace"
  shows "strip line = s"
proof -
  have pre: "\<And>c. c \<in> set pre \<Longrightarrow> isspace c"
    using assms(2) by (auto simp: isspace_whitespace)
  have post: "\<And>c. c \<in> set (rev post) \<Longrightarrow> isspace c"
    using assms(3) by (auto simp: isspace_whitespace)
  have h: "\<not> isspace (hd (s @ post))" using assms(4,5) by (simp add: isspace_whitespace)
  have l: "\<not> isspace (hd (rev s))" using assms(4,6) by (simp add: hd_rev isspace_whitespace)
  have "dropWhile isspace line = dropWhile isspace (s @ post)"
    unfolding assms(1) using pre by (rule dropWhile_append2)
  also have "\<dots> = s @ post"
    using h assms(4) by (cases "s @ post") auto
  finally have d1: "dropWhile isspace line = s @ post" .
  have "dropWhile isspace (rev (s @ post)) = dropWhile isspace (rev s)"
    unfolding rev_append using post by (rule dropWhile_append2)
  also have "\<dots> = rev s"
    using l assms(4) by (cases "rev s") auto
  finally show ?thesis by (simp add: strip_def d1)
qed

lemma trimmed_iff_strip: "trimmed line s \<longleftrightarrow> s = strip line \<and> s \<noteq> []"
proof
  assume t: "trimmed line s"
  then obtain pre post where d: "line = pre @ s @ post"
    and p1: "set pre \<subseteq> whitespace" and p2: "set post \<subseteq> whitespace"
    unfolding trimmed_def by blast
  from t have ne: "s \<noteq> []" and h: "hd s \<notin> whitespace" and l: "last s \<notin> whitespace"
    unfolding trimmed_def by simp_all
  from strip_unique [OF d p1 p2 ne h l] ne show "s = strip line \<and> s \<noteq> []"
    by simp
next
  assume a: "s = strip line \<and> s \<noteq> []"
  then have e: "s = strip line" and sne: "s \<noteq> []" by blast+
  from sne have ne: "strip line \<noteq> []" unfolding e .
  from strip_decomp [of line] obtain pre post where d: "line = pre @ strip line @ post"
    and p1: "set pre \<subseteq> whitespace" and p2: "set post \<subseteq> whitespace"
    by blast
  have "trimmed line (strip line)"
    unfolding trimmed_def
  proof (intro conjI)
    show "strip line \<noteq> []" by (rule ne)
    show "hd (strip line) \<notin> whitespace" using ne by (rule hd_strip)
    show "last (strip line) \<notin> whitespace" using ne by (rule last_strip)
    show "\<exists>pre post. line = pre @ strip line @ post \<and> set pre \<subseteq> whitespace
            \<and> set post \<subseteq> whitespace"
      by (rule strip_decomp)
  qed
  with a show "trimmed line s" by simp
qed

lemma dump_symbols_of_trimmed:
  "dump_symbols_of contents = {s. \<exists>line \<in> set (file_lines contents). trimmed line s}"
  unfolding dump_symbols_of_eq by (auto simp: trimmed_iff_strip)

lemma readlines_from_no_newline:
  "CHR 0x0A \<notin> set a \<Longrightarrow> readlines_from (a @ rest) cur = readlines_from rest (cur @ a)"
  by (induction a arbitrary: cur) auto

lemma readlines_from_lines:
  "is_line_split contents ls \<Longrightarrow> readlines_from contents [] = ls"
proof (induction ls arbitrary: contents)
  case Nil
  then show ?case by (simp add: is_line_split_def)
next
  case (Cons l ls)
  from Cons.prems have t: "contents = l @ concat ls" and lne: "l \<noteq> []"
    and nb: "CHR 0x0A \<notin> set (butlast l)"
    by (auto simp: is_line_split_def)
  from lne obtain ys y where ly: "l = ys @ [y]"
    by (cases l rule: rev_cases) auto
  from nb ly have nys: "CHR 0x0A \<notin> set ys" by simp
  show ?case
  proof (cases "y = CHR 0x0A")
    case True
    have rest: "is_line_split (concat ls) ls"
      using Cons.prems by (cases ls) (auto simp: is_line_split_def)
    have "readlines_from (ys @ CHR 0x0A # concat ls) []
            = readlines_from (CHR 0x0A # concat ls) ([] @ ys)"
      using nys by (rule readlines_from_no_newline)
    also have "\<dots> = (ys @ [CHR 0x0A]) # readlines_from (concat ls) []" by simp
    finally show ?thesis
      using Cons.IH [OF rest] by (simp add: t ly True)
  next
    case False
    have "ls = []"
    proof (cases ls)
      case Nil
      then show ?thesis .
    next
      case (Cons l' ls')
      with Cons.prems have "last l = CHR 0x0A" by (simp add: is_line_split_def)
      with ly False show ?thesis by simp
    qed
    from False nys have "CHR 0x0A \<notin> set (ys @ [y])" by simp
    then have "readlines_from ((ys @ [y]) @ []) [] = readlines_from [] ([] @ (ys @ [y]))"
      by (rule readlines_from_no_newline)
    then show ?thesis
      by (simp add: t ly \<open>ls = []\<close>)
  qed
qed

lemma readlines_from_nonempty: "l \<in> set (readlines_from s cur) \<Longrightarrow> l \<noteq> []"
  by (induction s arbitrary: cur) (auto split: if_splits)

lemma readlines_from_newline_last:
  "CHR 0x0A \<notin> set cur \<Longrightarrow> l \<in> set (readlines_from s cur) \<Longrightarrow> CHR 0x0A \<notin> set (butlast l)"
proof (induction s arbitrary: cur)
  case Nil
  then show ?case by (auto split: if_splits dest: in_set_butlastD)
next
  case (Cons c s)
  show ?case
  proof (cases "c = CHR 0x0A")
    case True
    with Cons.prems(2) have "l = cur @ [c] \<or> l \<in> set (readlines_from s [])" by simp
    then show ?thesis
    proof
      assume "l = cur @ [c]"
      with Cons.prems(1) show ?thesis by simp
    next
      assume "l \<in> set (readlines_from s [])"
      with Cons.IH [of "[]"] show ?thesis by simp
    qed
  next
    case False
    with Cons.prems(2) have m: "l \<in> set (readlines_from s (cur @ [c]))" by simp
    from False Cons.prems(1) have "CHR 0x0A \<notin> set (cur @ [c])" by simp
    from Cons.IH [OF this m] show ?thesis .
  qed
qed

lemma readlines_from_inner_lines:
  "l \<in> set (butlast (readlines_from s cur)) \<Longrightarrow> last l = CHR 0x0A"
proof (induction s arbitrary: cur)
  case Nil
  then show ?case by (simp split: if_splits)
next
  case (Cons c s)
  show ?case
  proof (cases "c = CHR 0x0A")
    case True
    with Cons.prems have "l \<in> set (butlast ((cur @ [c]) # readlines_from s []))" by simp
    then have "l = cur @ [c] \<or> l \<in> set (butlast (readlines_from s []))"
      by (simp split: if_splits)
    then show ?thesis
    proof
      assume "l = cur @ [c]"
      with True show ?thesis by simp
    next
      assume "l \<in> set (butlast (readlines_from s []))"
      then show ?thesis by (rule Cons.IH)
    qed
  next
    case False
    with Cons.prems have "l \<in> set (butlast (readlines_from s (cur @ [c])))" by simp
    then show ?thesis by (rule Cons.IH)
  qed
qed

lemma is_line_split_file_lines: "is_line_split contents (file_lines contents)"
  unfolding is_line_split_def file_lines_def
proof (intro conjI ballI)
  show "concat (readlines_from contents []) = contents"
    by (simp add: concat_readlines_from)
next
  fix l assume "l \<in> set (readlines_from contents [])"
  then show "l \<noteq> []" by (rule readlines_from_nonempty)
next
  fix l assume "l \<in> set (readlines_from contents [])"
  with readlines_from_newline_last [of "[]" l contents] show "CHR 0x0A \<notin> set (butlast l)"
    by simp
next
  fix l assume "l \<in> set (butlast (readlines_from contents []))"
  then show "last l = CHR 0x0A" by (rule readlines_from_inner_lines)
qed

lemma is_line_split_unique: "is_line_split contents ls \<Longrightarrow> ls = file_lines contents"
  by (simp add: file_lines_def readlines_from_lines)

text \<open>
  C1. When the dump can be read and the library can be loaded, \<open>_DiffSymbols\<close> returns a
  strictly ascending list (sorted in byte order, without duplicates). The text of the
  dump has a split into lines, and for every such split the elements of the list are
  exactly the trimmed forms of the lines (a line of whitespace only has none, and a
  repeated symbol counts once) that are not among the library's global dynamic symbols;
  the list is empty if and only if every trimmed line is a symbol of the library.
\<close>

theorem DiffSymbols_sorted_difference:
  assumes "read_file e dump_path = Some contents"
    and "ListGlobalDynamicSymbols e lib_path = Some lib_symbols"
  shows "\<exists>r. fst (DiffSymbols e dump_path lib_path lg) = Inr r
           \<and> sorted_wrt (<) r
           \<and> (\<exists>ls. is_line_split contents ls)
           \<and> (\<forall>ls. is_line_split contents ls \<longrightarrow>
                 set r = {s. \<exists>line \<in> set ls. trimmed line s} - set lib_symbols
                 \<and> (r = [] \<longleftrightarrow> {s. \<exists>line \<in> set ls. trimmed line s} \<subseteq> set lib_symbols))"
proof -
  let ?D = "dump_symbols_of contents - set lib_symbols"
  let ?S = "{s. \<exists>line \<in> set (file_lines contents). trimmed line s}"
  have fin: "finite ?D"
    by (simp add: finite_dump_symbols_of)
  have res: "fst (DiffSymbols e dump_path lib_path lg) = Inr (sorted_list_of_set ?D)"
    using assms by (simp add: DiffSymbols_def)
  have srt: "sorted_wrt (<) (sorted_list_of_set ?D)"
    by (rule strict_sorted_list_of_set)
  have st: "set (sorted_list_of_set ?D) = ?S - set lib_symbols"
    using fin by (simp add: dump_symbols_of_trimmed)
  have emp: "sorted_list_of_set ?D = [] \<longleftrightarrow> ?S \<subseteq> set lib_symbols"
    using fin by (simp add: dump_symbols_of_trimmed)
  have sp: "\<exists>ls. is_line_split contents ls"
    using is_line_split_file_lines by blast
  have every: "set (sorted_list_of_set ?D) = {s. \<exists>line \<in> set ls. trimmed line s} - set lib_symbols
                 \<and> (sorted_list_of_set ?D = [] \<longleftrightarrow>
                      {s. \<exists>line \<in> set ls. trimmed line s} \<subseteq> set lib_symbols)"
    if "is_line_split contents ls" for ls
  proof -
    from that have "ls = file_lines contents" by (rule is_line_split_unique)
    with st emp show ?thesis by simp
  qed
  show ?thesis
    using res srt sp every by blast
qed

theorem DiffSymbols_sorted_difference_witness:
  "read_file demo_env ''vts/testcases/vndk/golden/26/arm/libfoo.so_symbol.dump''
     = Some demo_symbol_dump
   \<and> ListGlobalDynamicSymbols demo_env ''/tmp/vendor_lib/libfoo.so'' = Some [''foo'', ''q r'']
   \<and> fst (DiffSymbols demo_env ''vts/testcases/vndk/golden/26/arm/libfoo.so_symbol.dump''
            ''/tmp/vendor_lib/libfoo.so'' []) = Inr [''bar'']
   \<and> (\<exists>r. fst (DiffSymbols demo_env ''vts/testcases/vndk/golden/26/arm/libfoo.so_symbol.dump''
                  ''/tmp/vendor_lib/libfoo.so'' []) = Inr r
          \<and> sorted_wrt (<) r
          \<and> (\<exists>ls. is_line_split demo_symbol_dump ls)
          \<and> (\<forall>ls. is_line_split demo_symbol_dump ls \<longrightarrow>
                set r = {s. \<exists>line \<in> set ls. trimmed line s} - set [''foo'', ''q r'']
                \<and> (r = [] \<longleftrightarrow>
                     {s. \<exists>line \<in> set ls. trimmed line s} \<subseteq> set [''foo'', ''q r''])))"
proof -
  have h1: "read_file demo_env ''vts/testcases/vndk/golden/26/arm/libfoo.so_symbol.dump''
              = Some demo_symbol_dump"
    by (simp add: demo_env_def)
  have h2: "ListGlobalDynamicSymbols demo_env ''/tmp/vendor_lib/libfoo.so'' = Some [''foo'', ''q r'']"
    by (simp add: demo_env_def)
  have v: "fst (DiffSymbols demo_env ''vts/testcases/vndk/golden/26/arm/libfoo.so_symbol.dump''
            ''/tmp/vendor_lib/libfoo.so'' []) = Inr [''bar'']"
    by code_simp
  show ?thesis
    by (rule conjI h1 h2 v DiffSymbols_sorted_difference [OF h1 h2])+
qed

subsection \<open>The vtable differ against the specification's wording\<close>

lemma build_inv_vtable_lookup:
  "build_inv_vtable entries m s =
     (if offsets_of entries s = [] then m s
      else Some ((case m s of None \<Rightarrow> [] | Some offs \<Rightarrow> offs) @ offsets_of entries s))"
proof (induction entries arbitrary: m)
  case Nil
  then show ?case by (simp add: offsets_of_def)
next
  case (Cons p entries)
  obtain off symb where p: "p = (off, symb)" by (cases p)
  show ?case
    by (simp add: p Cons.IH offsets_of_def split: option.splits)
qed

lemma lib_inv_vtable_of_lookup:
  "lib_inv_vtable_of actual vtable s =
     (if actual_offsets actual vtable s = [] then None
      else Some (actual_offsets actual vtable s))"
  by (simp add: lib_inv_vtable_of_def actual_offsets_def build_inv_vtable_lookup
           split: option.splits)

lemma diff_entry_spec:
  "diff_entry vtable (lib_inv_vtable_of actual vtable) p diff
     = diff @ spec_mismatch actual vtable p"
  by (cases p) (simp add: diff_entry_def spec_mismatch_def lib_inv_vtable_of_lookup Let_def)

lemma diff_dump_symbols_spec:
  "diff_dump_symbols vtable (lib_inv_vtable_of actual vtable) ds diff
     = diff @ concat (map (spec_mismatch actual vtable) ds)"
  by (induction ds arbitrary: diff) (simp_all add: diff_entry_spec)

lemma diff_vtables_loop_spec:
  "diff_vtables_loop golden actual diff = diff @ spec_DiffVtables golden actual"
proof (induction golden arbitrary: diff)
  case Nil
  then show ?case by (simp add: spec_DiffVtables_def)
next
  case (Cons g golden)
  obtain vtable ds where g: "g = (vtable, ds)" by (cases g)
  show ?case
    using Cons.IH by (simp add: g diff_dump_symbols_spec spec_DiffVtables_def)
qed

lemma spec_mismatch_vtable:
  "r \<in> set (spec_mismatch actual vtable p) \<Longrightarrow> fst r = vtable"
  by (cases p) (auto simp: spec_mismatch_def Let_def split: if_splits)

lemma spec_DiffVtables_vtable:
  "r \<in> set (spec_DiffVtables golden actual) \<Longrightarrow> fst r \<in> fst ` set golden"
  by (force simp: spec_DiffVtables_def dest: spec_mismatch_vtable)

lemma in_spec_DiffVtables:
  assumes "r \<in> set (spec_DiffVtables golden actual)"
  shows "\<exists>vtable ds p. (vtable, ds) \<in> set golden \<and> p \<in> set ds
           \<and> r \<in> set (spec_mismatch actual vtable p)"
  using assms unfolding spec_DiffVtables_def by fastforce

text \<open>
  C2. When the dump can be read and both layouts can be parsed, \<open>_DiffVtables\<close> returns
  what the specification's algorithm returns: for each vtable of the golden layout, in
  order, and each of its pairs, in order, a record with \<open>missing\<close> when the symbol has no
  offset in the same-named vtable of the actual layout, a record with the comma-joined
  offsets (in the order of the entries, duplicates kept) when it has offsets but not the
  expected one, and nothing otherwise. The inverse index that the code builds holds
  exactly those offsets, and no key when there are none (in particular when the vtable
  is absent from the actual layout). Every record names a vtable of the golden layout.
\<close>

theorem DiffVtables_refines_spec:
  assumes "read_file e dump_path = Some text"
    and "ParseVtablesFromString e (path_join (data_file_path self) [''host'']) text
           = Some golden"
    and "ParseVtablesFromLibrary e (path_join (data_file_path self) [''host'']) lib_path
           = Some actual"
  shows "fst (DiffVtables e self dump_path lib_path lg) = Inr (spec_DiffVtables golden actual)
         \<and> (\<forall>vtable symb. lib_inv_vtable_of actual vtable symb
               = (if actual_offsets actual vtable symb = [] then None
                  else Some (actual_offsets actual vtable symb)))
         \<and> (\<forall>r \<in> set (spec_DiffVtables golden actual). fst r \<in> fst ` set golden)"
  using assms
  by (simp add: DiffVtables_def diff_vtables_loop_spec spec_DiffVtables_vtable
        lib_inv_vtable_of_lookup)

theorem DiffVtables_refines_spec_witness:
  "read_file demo_env ''vts/testcases/vndk/golden/26/arm/libfoo.so_vtable.dump''
     = Some ''vtables of libfoo''
   \<and> ParseVtablesFromString demo_env (path_join (data_file_path demo_self) [''host''])
        ''vtables of libfoo'' = Some [(''V'', [(16, ''f''), (24, ''f'')])]
   \<and> ParseVtablesFromLibrary demo_env (path_join (data_file_path demo_self) [''host''])
        ''/tmp/vendor_lib/libfoo.so'' = Some [(''V'', [(8, ''f''), (16, ''f'')]), (''W'', [(0, ''g'')])]
   \<and> fst (DiffVtables demo_env demo_self
            ''vts/testcases/vndk/golden/26/arm/libfoo.so_vtable.dump''
            ''/tmp/vendor_lib/libfoo.so'' [])
       = Inr (spec_DiffVtables [(''V'', [(16, ''f''), (24, ''f'')])]
                [(''V'', [(8, ''f''), (16, ''f'')]), (''W'', [(0, ''g'')])])
   \<and> spec_DiffVtables [(''V'', [(16, ''f''), (24, ''f'')])] [(''V'', [(8, ''f''), (16, ''f'')]), (''W'', [(0, ''g'')])]
       = [(''V'', ''f'', ''24'', ''8,16'')]"
proof -
  have h1: "read_file demo_env ''vts/testcases/vndk/golden/26/arm/libfoo.so_vtable.dump''
              = Some ''vtables of libfoo''"
    by (simp add: demo_env_def)
  have h2: "ParseVtablesFromString demo_env (path_join (data_file_path demo_self) [''host''])
              ''vtables of libfoo'' = Some [(''V'', [(16, ''f''), (24, ''f'')])]"
    by (simp add: demo_env_def)
  have h3: "ParseVtablesFromLibrary demo_env (path_join (data_file_path demo_self) [''host''])
              ''/tmp/vendor_lib/libfoo.so'' = Some [(''V'', [(8, ''f''), (16, ''f'')]), (''W'', [(0, ''g'')])]"
    by (simp add: demo_env_def)
  have v: "spec_DiffVtables [(''V'', [(16, ''f''), (24, ''f'')])]
             [(''V'', [(8, ''f''), (16, ''f'')]), (''W'', [(0, ''g'')])] = [(''V'', ''f'', ''24'', ''8,16'')]"
    by code_simp
  have c: "fst (DiffVtables demo_env demo_self
                 ''vts/testcases/vndk/golden/26/arm/libfoo.so_vtable.dump''
                 ''/tmp/vendor_lib/libfoo.so'' [])
            = Inr (spec_DiffVtables [(''V'', [(16, ''f''), (24, ''f'')])]
                     [(''V'', [(8, ''f''), (16, ''f'')]), (''W'', [(0, ''g'')])])"
    by (rule conjunct1 [OF DiffVtables_refines_spec [OF h1 h2 h3]])
  show ?thesis
    by (rule conjI h1 h2 h3 c v)+
qed

subsection \<open>The fourth component of a record\<close>

lemma digit_char_mem: "digit_char d \<in> digits"
  unfolding digit_char_def digits_def by (rule nth_mem) simp

lemma set_str_nat: "set (str_nat n) \<subseteq> digits"
proof (induction n rule: str_nat.induct)
  case (1 n)
  show ?case
  proof (cases "n < 10")
    case True
    then show ?thesis
      using digit_char_mem [of n] by (subst str_nat.simps) simp
  next
    case False
    then show ?thesis
      using 1 digit_char_mem [of "n mod 10"] by (subst str_nat.simps) simp
  qed
qed

lemma set_str_int: "set (str_int i) \<subseteq> offset_chars"
proof (cases "i < 0")
  case True
  then show ?thesis
    using set_str_nat [of "nat (- i)"]
    by (auto simp only: str_int_def offset_chars_def if_True list.set)
next
  case False
  then show ?thesis
    using set_str_nat [of "nat i"] by (auto simp only: str_int_def offset_chars_def if_False)
qed

lemma set_join: "set (join sep xs) \<subseteq> set sep \<union> \<Union> (set ` set xs)"
  by (induction sep xs rule: join.induct) auto

lemma set_join_offsets: "set (join '','' (map str_int offs)) \<subseteq> offset_chars"
proof -
  have a: "\<Union> (set ` set (map str_int offs)) \<subseteq> offset_chars"
    using set_str_int by auto
  have b: "set '','' \<subseteq> offset_chars"
    by (simp add: offset_chars_def)
  show ?thesis
    using set_join [of "'',''" "map str_int offs"] a b by blast
qed

lemma m_not_offset_char: "CHR ''m'' \<notin> offset_chars"
  by (simp add: offset_chars_def digits_def)

lemma join_offsets_not_missing: "join '','' (map str_int offs) \<noteq> ''missing''"
proof
  assume "join '','' (map str_int offs) = ''missing''"
  then have "CHR ''m'' \<in> set (join '','' (map str_int offs))" by simp
  then show False using set_join_offsets m_not_offset_char by blast
qed

lemma spec_mismatch_actual:
  assumes "(v, s, x, a) \<in> set (spec_mismatch actual vtable p)"
  shows "(a = ''missing'' \<longleftrightarrow> actual_offsets actual v s = [])
         \<and> (a \<noteq> ''missing'' \<longrightarrow> a = join '','' (map str_int (actual_offsets actual v s)))"
proof -
  obtain off symb where p: "p = (off, symb)" by (cases p)
  show ?thesis
  proof (cases "actual_offsets actual vtable symb = []")
    case True
    then show ?thesis using assms by (simp add: p spec_mismatch_def)
  next
    case False
    then show ?thesis
      using assms join_offsets_not_missing [of "actual_offsets actual vtable symb"]
      by (simp add: p spec_mismatch_def Let_def split: if_splits)
  qed
qed

text \<open>
  C10. In every record \<open>(v, s, x, a)\<close> that the loops of \<open>_DiffVtables\<close> emit, \<open>a\<close> is
  \<open>missing\<close> if and only if the symbol \<open>s\<close> has no offset in the vtable \<open>v\<close> of the actual
  layout; otherwise \<open>a\<close> is the comma-joined decimal form of the non-empty list of those
  offsets, made only of digits, minus signs and commas, so it is never \<open>missing\<close>.
\<close>

theorem DiffVtables_missing_marker:
  assumes "(v, s, x, a) \<in> set (diff_vtables_loop golden actual [])"
  shows "(a = ''missing'' \<longleftrightarrow> actual_offsets actual v s = [])
         \<and> (a \<noteq> ''missing'' \<longrightarrow>
              actual_offsets actual v s \<noteq> []
              \<and> a = join '','' (map str_int (actual_offsets actual v s))
              \<and> set a \<subseteq> offset_chars)"
proof -
  from assms have "(v, s, x, a) \<in> set (spec_DiffVtables golden actual)"
    by (simp add: diff_vtables_loop_spec)
  from in_spec_DiffVtables [OF this] obtain vtable p
    where "(v, s, x, a) \<in> set (spec_mismatch actual vtable p)" by blast
  from spec_mismatch_actual [OF this] show ?thesis
    using set_join_offsets [of "actual_offsets actual v s"] by auto
qed

theorem DiffVtables_missing_marker_witness:
  "(''V'', ''f'', ''24'', ''8,16'')
     \<in> set (diff_vtables_loop [(''V'', [(16, ''f''), (24, ''f'')])]
              [(''V'', [(8, ''f''), (16, ''f'')])] [])
   \<and> ''8,16'' \<noteq> ''missing''
   \<and> actual_offsets [(''V'', [(8, ''f''), (16, ''f'')])] ''V'' ''f'' \<noteq> []
   \<and> ''8,16'' = join '','' (map str_int (actual_offsets [(''V'', [(8, ''f''), (16, ''f'')])] ''V'' ''f''))
   \<and> set ''8,16'' \<subseteq> offset_chars"
proof -
  have h: "(''V'', ''f'', ''24'', ''8,16'')
             \<in> set (diff_vtables_loop [(''V'', [(16, ''f''), (24, ''f'')])]
                      [(''V'', [(8, ''f''), (16, ''f'')])] [])"
    by code_simp
  have n: "''8,16'' \<noteq> ''missing''"
    by simp
  note r = DiffVtables_missing_marker [OF h]
  from r n have c: "actual_offsets [(''V'', [(8, ''f''), (16, ''f'')])] ''V'' ''f'' \<noteq> []
      \<and> ''8,16'' = join '','' (map str_int (actual_offsets [(''V'', [(8, ''f''), (16, ''f'')])] ''V'' ''f''))
      \<and> set ''8,16'' \<subseteq> offset_chars"
    by (rule mp [OF conjunct2])
  show ?thesis
    by (rule conjI h n c)+
qed

subsection \<open>A symbol at two offsets\<close>

lemma str_int_8: "str_int 8 = ''8''"
  by code_simp

lemma str_int_16: "str_int 16 = ''16''"
  by code_simp

lemma str_int_24: "str_int 24 = ''24''"
  by code_simp

lemma in_offsets_of: "(off, symb) \<in> set entries \<Longrightarrow> off \<in> set (offsets_of entries symb)"
  by (force simp: offsets_of_def)

text \<open>
  C7, as the claim states it, fails for a layout that lists the symbol at offset 16 before
  offset 8: the symbol appears at offsets 8 and 16, the golden layout expects it at 24,
  and the actual field of the record is \<open>16,8\<close>.
\<close>

theorem DiffVtables_offsets_in_entry_order:
  "(8, ''f'') \<in> set [(16::int, ''f''), (8, ''f'')]
   \<and> (16, ''f'') \<in> set [(16::int, ''f''), (8, ''f'')]
   \<and> diff_vtables_loop [(''V'', [(24, ''f'')])] [(''V'', [(16, ''f''), (8, ''f'')])] []
       = [(''V'', ''f'', ''24'', ''16,8'')]
   \<and> ''16,8'' \<noteq> ''8,16''"
  by code_simp

text \<open>
  C7, amended. Let the vtable of the actual layout list a symbol at offset 8 and at offset
  16. For the golden pair (16, symbol) the loop body leaves \<open>diff\<close> as it is, and a
  golden layout with that pair alone yields no record. For the golden pair (24, symbol),
  when the symbol is not also listed at 24, the loop body appends the record whose last
  component is the symbol's offsets joined by commas in the order of the entries, and a
  golden layout with that pair alone yields exactly that record; the component is
  \<open>8,16\<close> when the entries of the symbol are at 8 and then at 16 and nowhere else.
\<close>

theorem DiffVtables_duplicate_offsets:
  assumes "map_of actual vtable = Some entries"
    and "(8, symb) \<in> set entries"
    and "(16, symb) \<in> set entries"
  shows "diff_entry vtable (lib_inv_vtable_of actual vtable) (16, symb) diff = diff
         \<and> diff_vtables_loop [(vtable, [(16, symb)])] actual [] = []
         \<and> (24 \<notin> set (offsets_of entries symb) \<longrightarrow>
               diff_entry vtable (lib_inv_vtable_of actual vtable) (24, symb) diff
                 = diff @ [(vtable, symb, ''24'', join '','' (map str_int (offsets_of entries symb)))]
               \<and> diff_vtables_loop [(vtable, [(24, symb)])] actual []
                 = [(vtable, symb, ''24'', join '','' (map str_int (offsets_of entries symb)))])
         \<and> (offsets_of entries symb = [8, 16] \<longrightarrow>
               diff_entry vtable (lib_inv_vtable_of actual vtable) (24, symb) diff
                 = diff @ [(vtable, symb, ''24'', ''8,16'')]
               \<and> diff_vtables_loop [(vtable, [(24, symb)])] actual []
                 = [(vtable, symb, ''24'', ''8,16'')])"
proof -
  have offs: "actual_offsets actual vtable symb = offsets_of entries symb"
    using assms(1) by (simp add: actual_offsets_def)
  have m16: "16 \<in> set (offsets_of entries symb)"
    using assms(3) by (rule in_offsets_of)
  then have ne: "offsets_of entries symb \<noteq> []" by auto
  have inv: "lib_inv_vtable_of actual vtable symb = Some (offsets_of entries symb)"
    using ne by (simp add: lib_inv_vtable_of_lookup offs)
  have a: "diff_entry vtable (lib_inv_vtable_of actual vtable) (16, symb) diff = diff" for diff
    using m16 by (simp add: diff_entry_def inv)
  have b: "diff_entry vtable (lib_inv_vtable_of actual vtable) (24, symb) diff
             = diff @ [(vtable, symb, ''24'', join '','' (map str_int (offsets_of entries symb)))]"
    if "24 \<notin> set (offsets_of entries symb)" for diff
    using that by (simp add: diff_entry_def inv str_int_24)
  have c: "join '','' (map str_int (offsets_of entries symb)) = ''8,16''"
    if "offsets_of entries symb = [8, 16]"
    by (simp add: that str_int_8 str_int_16)
  have d: "24 \<notin> set (offsets_of entries symb)" if "offsets_of entries symb = [8, 16]"
    by (simp add: that)
  show ?thesis
    using a [of diff] a [of "[]"] b [of diff] b [of "[]"] c d by simp
qed

theorem DiffVtables_duplicate_offsets_witness:
  "map_of [(''V'', [(16, ''f''), (0, ''g''), (8, ''f'')])] ''V''
     = Some [(16::int, ''f''), (0, ''g''), (8, ''f'')]
   \<and> (8, ''f'') \<in> set [(16::int, ''f''), (0, ''g''), (8, ''f'')]
   \<and> (16, ''f'') \<in> set [(16::int, ''f''), (0, ''g''), (8, ''f'')]
   \<and> diff_vtables_loop [(''V'', [(16, ''f'')])] [(''V'', [(16, ''f''), (0, ''g''), (8, ''f'')])] []
       = []
   \<and> diff_vtables_loop [(''V'', [(24, ''f'')])] [(''V'', [(8, ''f''), (0, ''g''), (16, ''f'')])] []
       = [(''V'', ''f'', ''24'', ''8,16'')]"
proof -
  have h1: "map_of [(''V'', [(16, ''f''), (0, ''g''), (8, ''f'')])] ''V''
              = Some [(16::int, ''f''), (0, ''g''), (8, ''f'')]"
    by simp
  have h2: "(8, ''f'') \<in> set [(16::int, ''f''), (0, ''g''), (8, ''f'')]" by simp
  have h3: "(16, ''f'') \<in> set [(16::int, ''f''), (0, ''g''), (8, ''f'')]" by simp
  note r = DiffVtables_duplicate_offsets [OF h1 h2 h3, of "[]"]
  have k1: "map_of [(''V'', [(8, ''f''), (0, ''g''), (16, ''f'')])] ''V''
              = Some [(8::int, ''f''), (0, ''g''), (16, ''f'')]"
    by simp
  have k2: "(8, ''f'') \<in> set [(8::int, ''f''), (0, ''g''), (16, ''f'')]" by simp
  have k3: "(16, ''f'') \<in> set [(8::int, ''f''), (0, ''g''), (16, ''f'')]" by simp
  have k4: "offsets_of [(8, ''f''), (0, ''g''), (16, ''f'')] ''f'' = [8, 16]"
    by (simp add: offsets_of_def)
  note q = conjunct2 [OF mp [OF conjunct2 [OF conjunct2 [OF conjunct2 [OF DiffVtables_duplicate_offsets [OF k1 k2 k3, of "[]"]]]] k4]]
  show ?thesis
    by (rule conjI h1 h2 h3 conjunct1 [OF conjunct2 [OF r]] q)+
qed

subsection \<open>Running a differ twice on the same inputs\<close>

lemma fst_DiffSymbols_log:
  "fst (DiffSymbols e dump_path lib_path lg) = fst (DiffSymbols e dump_path lib_path lg')"
  by (simp add: DiffSymbols_def split: option.splits)

lemma fst_DiffVtables_log:
  "fst (DiffVtables e self dump_path lib_path lg) = fst (DiffVtables e self dump_path lib_path lg')"
  by (simp add: DiffVtables_def Let_def split: option.splits)







subsection \<open>One library: the two differs and the count\<close>

lemma DiffSymbols_raises:
  "DiffSymbols e dump_path lib_path lg = (Inl err, lg') \<Longrightarrow> err = IOError \<or> err = ElfError"
  by (auto simp: DiffSymbols_def split: option.splits)

lemma DiffVtables_raises:
  "DiffVtables e self dump_path lib_path lg = (Inl err, lg') \<Longrightarrow> err = IOError \<or> err = VtableError"
  by (auto simp: DiffVtables_def Let_def split: option.splits)

lemma compare_symbols_result:
  "fst (compare_symbols e d lib_name lib_path rel_path r lg) =
     Inr (case symbols_outcome e d lib_name lib_path of
            None \<Rightarrow> r
          | Some (Inr syms) \<Rightarrow> r\<lparr>missing_symbols := syms\<rparr>
          | Some (Inl err) \<Rightarrow> r\<lparr>has_exception := True\<rparr>)"
proof (cases "symbol_dumps d lib_name")
  case None
  then show ?thesis by (simp add: compare_symbols_def symbols_outcome_def)
next
  case (Some dump_path)
  obtain res lg' where ds: "DiffSymbols e dump_path lib_path lg = (res, lg')"
    by (cases "DiffSymbols e dump_path lib_path lg")
  then have f: "fst (DiffSymbols e dump_path lib_path []) = res"
    using fst_DiffSymbols_log [of e dump_path lib_path "[]" lg] by simp
  show ?thesis
  proof (cases res)
    case (Inl err)
    with ds have "err = IOError \<or> err = ElfError" by (auto dest: DiffSymbols_raises)
    with Some ds Inl f show ?thesis
      by (auto simp: compare_symbols_def symbols_outcome_def)
  next
    case (Inr syms)
    with Some ds f show ?thesis
      by (simp add: compare_symbols_def symbols_outcome_def)
  qed
qed

lemma compare_vtables_result:
  "fst (compare_vtables e self d lib_name lib_path rel_path r lg) =
     Inr (case vtables_outcome e self d lib_name lib_path of
            None \<Rightarrow> r
          | Some (Inr vd) \<Rightarrow> r\<lparr>vtable_diff := vd\<rparr>
          | Some (Inl err) \<Rightarrow> r\<lparr>has_exception := True\<rparr>)"
proof (cases "vtable_dumps d lib_name")
  case None
  then show ?thesis by (simp add: compare_vtables_def vtables_outcome_def)
next
  case (Some dump_path)
  obtain res lg' where ds: "DiffVtables e self dump_path lib_path lg = (res, lg')"
    by (cases "DiffVtables e self dump_path lib_path lg")
  then have f: "fst (DiffVtables e self dump_path lib_path []) = res"
    using fst_DiffVtables_log [of e self dump_path lib_path "[]" lg] by simp
  show ?thesis
  proof (cases res)
    case (Inl err)
    with ds have "err = IOError \<or> err = VtableError" by (auto dest: DiffVtables_raises)
    with Some ds Inl f show ?thesis
      by (auto simp: compare_vtables_def vtables_outcome_def)
  next
    case (Inr vd)
    with Some ds f show ?thesis
      by (simp add: compare_vtables_def vtables_outcome_def)
  qed
qed

lemma diff_lib_result:
  "fst (diff_lib e self d lib_name lib_path lg) = Inr (expected_diff e self d lib_name lib_path)"
proof -
  let ?rel = "relpath e lib_path (temp_dir self)"
  let ?r0 = "\<lparr>has_exception = False, missing_symbols = [], vtable_diff = []\<rparr>"
  obtain r1 lg1 where c1: "compare_symbols e d lib_name lib_path ?rel ?r0 lg = (Inr r1, lg1)"
    using compare_symbols_result [of e d lib_name lib_path ?rel ?r0 lg]
    by (cases "compare_symbols e d lib_name lib_path ?rel ?r0 lg") auto
  have r1: "r1 = (case symbols_outcome e d lib_name lib_path of
            None \<Rightarrow> ?r0
          | Some (Inr syms) \<Rightarrow> ?r0\<lparr>missing_symbols := syms\<rparr>
          | Some (Inl err) \<Rightarrow> ?r0\<lparr>has_exception := True\<rparr>)"
    using compare_symbols_result [of e d lib_name lib_path ?rel ?r0 lg] c1 by simp
  have "fst (diff_lib e self d lib_name lib_path lg)
          = fst (compare_vtables e self d lib_name lib_path ?rel r1 lg1)"
    using c1 by (simp add: diff_lib_def Let_def)
  also have "\<dots> = Inr (expected_diff e self d lib_name lib_path)"
    unfolding compare_vtables_result r1 expected_diff_def raised_def
    by (simp split: option.splits sum.splits)
  finally show ?thesis .
qed

lemma diff_lib_Inr:
  "\<exists>lg'. diff_lib e self d lib_name lib_path lg
           = (Inr (expected_diff e self d lib_name lib_path), lg')"
  using diff_lib_result [of e self d lib_name lib_path lg]
  by (cases "diff_lib e self d lib_name lib_path lg") simp

lemma scan_lib_not_found:
  "falsy v \<Longrightarrow> scan_lib e self d (lib_name, v) n lg = (Inr n, lg @ [InfoNotFound lib_name])"
  by (auto simp: scan_lib_def falsy_def)

lemma scan_lib_found:
  assumes "lib_path \<noteq> []"
    and "diff_lib e self d lib_name lib_path lg = (Inr r, lg')"
  shows "scan_lib e self d (lib_name, Some lib_path) n lg =
           (Inr (if incompatible r then n + 1 else n),
            lg' @ (if missing_symbols r \<noteq> []
                   then [ErrorMissingSymbols (relpath e lib_path (temp_dir self)) (missing_symbols r)]
                   else [])
                @ (if vtable_diff r \<noteq> []
                   then [ErrorVtableDifference (relpath e lib_path (temp_dir self)) (vtable_diff r)]
                   else [])
                @ (if incompatible r then [] else [InfoPass (relpath e lib_path (temp_dir self))]))"
  using assms by (simp add: scan_lib_def report_lib_def Let_def)

lemma fst_scan_lib:
  "fst (scan_lib e self d item n lg) = Inr (if lib_incompatible e self d item then n + 1 else n)"
proof -
  obtain lib_name v where item: "item = (lib_name, v)" by (cases item)
  show ?thesis
  proof (cases "falsy v")
    case True
    then show ?thesis
      by (auto simp: item scan_lib_not_found lib_incompatible_def falsy_def)
  next
    case False
    then obtain lib_path where v: "v = Some lib_path" and ne: "lib_path \<noteq> []"
      by (auto simp: falsy_def)
    from diff_lib_Inr obtain lg' where
      "diff_lib e self d lib_name lib_path lg = (Inr (expected_diff e self d lib_name lib_path), lg')"
      by blast
    from scan_lib_found [OF ne this] show ?thesis
      by (simp add: item v ne lib_incompatible_def)
  qed
qed

lemma fst_scan_libs:
  "fst (scan_libs e self d items n lg) = Inr (n + length (filter (lib_incompatible e self d) items))"
proof (induction items arbitrary: n lg)
  case Nil
  then show ?case by simp
next
  case (Cons item items)
  obtain res lg' where s: "scan_lib e self d item n lg = (res, lg')"
    by (cases "scan_lib e self d item n lg")
  with fst_scan_lib [of e self d item n lg]
  have res: "res = Inr (if lib_incompatible e self d item then n + 1 else n)" by simp
  show ?case
    using Cons.IH by (simp add: s res)
qed

text \<open>
  Python 2 iterates a dict in an order of its own. The loop over \<open>lib_paths\<close> is modelled
  in the order in which the keys were inserted; the count that the loop returns is the
  same for every order of the items.
\<close>

lemma fst_scan_libs_perm:
  assumes "mset items = mset items'"
  shows "fst (scan_libs e self d items n lg) = fst (scan_libs e self d items' n lg')"
proof -
  have "mset (filter (lib_incompatible e self d) items)
          = mset (filter (lib_incompatible e self d) items')"
    using assms by simp
  then have "length (filter (lib_incompatible e self d) items)
               = length (filter (lib_incompatible e self d) items')"
    by (rule mset_eq_length)
  then show ?thesis by (simp add: fst_scan_libs)
qed

lemma fst_register_dump_log:
  "fst (register_dump f (d, lg)) = fst (register_dump f (d, lg'))"
  by (cases f) (simp add: register_dump_def Let_def)

lemma fst_fold_register_dump_log:
  "fst (fold register_dump fs (d, lg)) = fst (fold register_dump fs (d, lg'))"
proof (induction fs arbitrary: d lg lg')
  case Nil
  then show ?case by simp
next
  case (Cons f fs)
  obtain d1 lg1 where a: "register_dump f (d, lg) = (d1, lg1)"
    by (cases "register_dump f (d, lg)")
  obtain d2 lg2 where b: "register_dump f (d, lg') = (d2, lg2)"
    by (cases "register_dump f (d, lg')")
  from a b fst_register_dump_log [of f d lg lg'] have "d1 = d2" by simp
  with a b Cons.IH [of d1 lg1 lg2] show ?case by simp
qed

lemma fst_collect_dumps_log: "fst (collect_dumps e dump_dir lg) = fst (collect_dumps e dump_dir lg')"
  by (simp add: collect_dumps_def fst_fold_register_dump_log)

lemma fst_ScanLibDirs:
  "fst (ScanLibDirs e self dump_dir lib_dirs lg) = Inr (incompatible_count e self dump_dir lib_dirs)"
proof -
  obtain d lg1 where c: "collect_dumps e dump_dir lg = (d, lg1)"
    by (cases "collect_dumps e dump_dir lg")
  with fst_collect_dumps_log [of e dump_dir "[]" lg]
  have d: "fst (collect_dumps e dump_dir []) = d" by simp
  show ?thesis
    by (simp add: ScanLibDirs_def c Let_def fst_scan_libs incompatible_count_def
          resolved_dumps_def d)
qed

lemma ScanLibDirs_Inr:
  "\<exists>lg'. ScanLibDirs e self dump_dir lib_dirs lg
           = (Inr (incompatible_count e self dump_dir lib_dirs), lg')"
  using fst_ScanLibDirs [of e self dump_dir lib_dirs lg]
  by (cases "ScanLibDirs e self dump_dir lib_dirs lg") simp

lemma ScanLibDirs_resolved:
  "ScanLibDirs e self dump_dir lib_dirs lg =
     scan_libs e self (resolved_dumps e dump_dir lib_dirs)
       (lib_paths (resolved_dumps e dump_dir lib_dirs)) 0 (snd (collect_dumps e dump_dir lg))"
proof -
  obtain d lg1 where c: "collect_dumps e dump_dir lg = (d, lg1)"
    by (cases "collect_dumps e dump_dir lg")
  with fst_collect_dumps_log [of e dump_dir "[]" lg]
  have d: "fst (collect_dumps e dump_dir []) = d" by simp
  show ?thesis
    by (simp add: ScanLibDirs_def c Let_def resolved_dumps_def d)
qed

text \<open>
  C3. For a library with a resolved (non-empty) path, the two \<open>try\<close> blocks always end
  with values of the three local variables; \<open>has_exception\<close> is set exactly when the
  symbol differ or the vtable differ raised for this library; the loop body adds one to
  the count if and only if \<open>has_exception\<close> is set or \<open>missing_symbols\<close> or \<open>vtable_diff\<close>
  is non-empty, and otherwise leaves the count as it is and logs \<open>Pass\<close>. In a whole
  run of the loop the library contributes one or zero accordingly, whatever the items
  before and after it.
\<close>

theorem ScanLibDirs_counts_library:
  assumes "lib_path \<noteq> []"
  shows "(\<exists>r lg'. diff_lib e self d lib_name lib_path lg = (Inr r, lg')
           \<and> has_exception r = (raised (symbols_outcome e d lib_name lib_path)
                                 \<or> raised (vtables_outcome e self d lib_name lib_path))
           \<and> scan_lib e self d (lib_name, Some lib_path) n lg =
               (Inr (if has_exception r \<or> missing_symbols r \<noteq> [] \<or> vtable_diff r \<noteq> []
                     then n + 1 else n),
                lg' @ (if missing_symbols r \<noteq> []
                       then [ErrorMissingSymbols (relpath e lib_path (temp_dir self))
                               (missing_symbols r)]
                       else [])
                    @ (if vtable_diff r \<noteq> []
                       then [ErrorVtableDifference (relpath e lib_path (temp_dir self))
                               (vtable_diff r)]
                       else [])
                    @ (if has_exception r \<or> missing_symbols r \<noteq> [] \<or> vtable_diff r \<noteq> []
                       then [] else [InfoPass (relpath e lib_path (temp_dir self))])))
         \<and> fst (scan_libs e self d (pre @ (lib_name, Some lib_path) # post) n lg)
             = Inr (n + length (filter (lib_incompatible e self d) pre)
                      + (if incompatible (expected_diff e self d lib_name lib_path) then 1 else 0)
                      + length (filter (lib_incompatible e self d) post))"
proof -
  from diff_lib_Inr obtain lg' where
    dl: "diff_lib e self d lib_name lib_path lg = (Inr (expected_diff e self d lib_name lib_path), lg')"
    by blast
  have he: "has_exception (expected_diff e self d lib_name lib_path)
              = (raised (symbols_outcome e d lib_name lib_path)
                 \<or> raised (vtables_outcome e self d lib_name lib_path))"
    by (simp add: expected_diff_def)
  from scan_lib_found [OF assms dl, of n] dl he
  have one: "\<exists>r lg'. diff_lib e self d lib_name lib_path lg = (Inr r, lg')
           \<and> has_exception r = (raised (symbols_outcome e d lib_name lib_path)
                                 \<or> raised (vtables_outcome e self d lib_name lib_path))
           \<and> scan_lib e self d (lib_name, Some lib_path) n lg =
               (Inr (if has_exception r \<or> missing_symbols r \<noteq> [] \<or> vtable_diff r \<noteq> []
                     then n + 1 else n),
                lg' @ (if missing_symbols r \<noteq> []
                       then [ErrorMissingSymbols (relpath e lib_path (temp_dir self))
                               (missing_symbols r)]
                       else [])
                    @ (if vtable_diff r \<noteq> []
                       then [ErrorVtableDifference (relpath e lib_path (temp_dir self))
                               (vtable_diff r)]
                       else [])
                    @ (if has_exception r \<or> missing_symbols r \<noteq> [] \<or> vtable_diff r \<noteq> []
                       then [] else [InfoPass (relpath e lib_path (temp_dir self))]))"
    unfolding incompatible_def by blast
  have all: "fst (scan_libs e self d (pre @ (lib_name, Some lib_path) # post) n lg)
             = Inr (n + length (filter (lib_incompatible e self d) pre)
                      + (if incompatible (expected_diff e self d lib_name lib_path) then 1 else 0)
                      + length (filter (lib_incompatible e self d) post))"
    using assms by (simp add: fst_scan_libs lib_incompatible_def)
  show ?thesis
    using one all by (rule conjI)
qed

theorem ScanLibDirs_counts_library_witness:
  "''/tmp/vendor_lib/libfoo.so'' \<noteq> []
   \<and> (\<exists>r lg'. diff_lib demo_env demo_self demo_dumps ''libfoo.so'' ''/tmp/vendor_lib/libfoo.so'' []
                 = (Inr r, lg')
           \<and> has_exception r
               = (raised (symbols_outcome demo_env demo_dumps ''libfoo.so'' ''/tmp/vendor_lib/libfoo.so'')
                  \<or> raised (vtables_outcome demo_env demo_self demo_dumps ''libfoo.so''
                              ''/tmp/vendor_lib/libfoo.so''))
           \<and> scan_lib demo_env demo_self demo_dumps (''libfoo.so'', Some ''/tmp/vendor_lib/libfoo.so'') 0 [] =
               (Inr (if has_exception r \<or> missing_symbols r \<noteq> [] \<or> vtable_diff r \<noteq> []
                     then 0 + 1 else 0),
                lg' @ (if missing_symbols r \<noteq> []
                       then [ErrorMissingSymbols (relpath demo_env ''/tmp/vendor_lib/libfoo.so'' (temp_dir demo_self))
                               (missing_symbols r)]
                       else [])
                    @ (if vtable_diff r \<noteq> []
                       then [ErrorVtableDifference (relpath demo_env ''/tmp/vendor_lib/libfoo.so'' (temp_dir demo_self))
                               (vtable_diff r)]
                       else [])
                    @ (if has_exception r \<or> missing_symbols r \<noteq> [] \<or> vtable_diff r \<noteq> []
                       then [] else [InfoPass (relpath demo_env ''/tmp/vendor_lib/libfoo.so'' (temp_dir demo_self))])))
   \<and> fst (scan_lib demo_env demo_self demo_dumps (''libfoo.so'', Some ''/tmp/vendor_lib/libfoo.so'') 0 [])
       = Inr 1
   \<and> fst (scan_lib demo_env demo_self demo_dumps (''libbar.so'', Some ''/tmp/system_lib/hw/libbar.so'') 0 [])
       = Inr 0"
proof -
  have h: "''/tmp/vendor_lib/libfoo.so'' \<noteq> []" by simp
  have v1: "fst (scan_lib demo_env demo_self demo_dumps (''libfoo.so'', Some ''/tmp/vendor_lib/libfoo.so'') 0 [])
       = Inr 1"
    by code_simp
  have v2: "fst (scan_lib demo_env demo_self demo_dumps (''libbar.so'', Some ''/tmp/system_lib/hw/libbar.so'') 0 [])
       = Inr 0"
    by code_simp
  show ?thesis
    by (rule conjI h conjunct1 [OF ScanLibDirs_counts_library [OF h]] v1 v2)+
qed

text \<open>
  C8. When the symbol differ or the vtable differ raises for a library with a resolved
  path, the exception is caught: the two \<open>try\<close> blocks end normally with \<open>has_exception\<close>
  set, the library adds one to the count, the libraries before and after it in the loop
  are counted as they would be without it, and \<open>_ScanLibDirs\<close> returns a count.
\<close>

theorem ScanLibDirs_catches_failures:
  assumes "lib_path \<noteq> []"
    and "raised (symbols_outcome e d lib_name lib_path)
         \<or> raised (vtables_outcome e self d lib_name lib_path)"
  shows "(\<exists>r lg'. diff_lib e self d lib_name lib_path lg = (Inr r, lg') \<and> has_exception r)
         \<and> fst (scan_libs e self d (pre @ (lib_name, Some lib_path) # post) n lg)
             = Inr (n + length (filter (lib_incompatible e self d) pre) + 1
                      + length (filter (lib_incompatible e self d) post))
         \<and> (\<exists>m lg'. ScanLibDirs e self dump_dir lib_dirs lg = (Inr m, lg'))"
proof -
  from diff_lib_Inr obtain lg' where
    dl: "diff_lib e self d lib_name lib_path lg = (Inr (expected_diff e self d lib_name lib_path), lg')"
    by blast
  have he: "has_exception (expected_diff e self d lib_name lib_path)"
    using assms(2) by (simp add: expected_diff_def)
  have inc: "lib_incompatible e self d (lib_name, Some lib_path)"
    using assms(1) he by (simp add: lib_incompatible_def incompatible_def)
  have cnt: "fst (scan_libs e self d (pre @ (lib_name, Some lib_path) # post) n lg)
             = Inr (n + length (filter (lib_incompatible e self d) pre) + 1
                      + length (filter (lib_incompatible e self d) post))"
    using inc by (simp add: fst_scan_libs)
  have tot: "\<exists>m lg'. ScanLibDirs e self dump_dir lib_dirs lg = (Inr m, lg')"
    using fst_ScanLibDirs [of e self dump_dir lib_dirs lg]
    by (cases "ScanLibDirs e self dump_dir lib_dirs lg") simp
  show ?thesis
    using dl he cnt tot by blast
qed

theorem ScanLibDirs_catches_failures_witness:
  "''/tmp/system_lib/libqux.so'' \<noteq> []
   \<and> (raised (symbols_outcome demo_env demo_dumps ''libqux.so'' ''/tmp/system_lib/libqux.so'')
       \<or> raised (vtables_outcome demo_env demo_self demo_dumps ''libqux.so'' ''/tmp/system_lib/libqux.so''))
   \<and> fst (scan_libs demo_env demo_self demo_dumps
            ([(''libbaz.so'', None)] @ (''libqux.so'', Some ''/tmp/system_lib/libqux.so'')
               # [(''libbar.so'', Some ''/tmp/system_lib/hw/libbar.so'')]) 0 [])
       = Inr (0 + length (filter (lib_incompatible demo_env demo_self demo_dumps) [(''libbaz.so'', None)]) + 1
                + length (filter (lib_incompatible demo_env demo_self demo_dumps)
                            [(''libbar.so'', Some ''/tmp/system_lib/hw/libbar.so'')]))
   \<and> fst (ScanLibDirs demo_env demo_self demo_golden demo_lib_dirs []) = Inr 2"
proof -
  have h1: "''/tmp/system_lib/libqux.so'' \<noteq> []" by simp
  have h2: "raised (symbols_outcome demo_env demo_dumps ''libqux.so'' ''/tmp/system_lib/libqux.so'')
       \<or> raised (vtables_outcome demo_env demo_self demo_dumps ''libqux.so'' ''/tmp/system_lib/libqux.so'')"
    by code_simp
  note r = ScanLibDirs_catches_failures [OF h1 h2]
  have v: "fst (ScanLibDirs demo_env demo_self demo_golden demo_lib_dirs []) = Inr 2"
    by code_simp
  show ?thesis
    by (rule conjI h1 h2 conjunct1 [OF conjunct2 [OF r]] v)+
qed

subsection \<open>Resolving the libraries\<close>

lemma map_of_dict_set: "map_of (dict_set k v d) k' = (if k' = k then Some v else map_of d k')"
  by (induction d) auto

lemma map_fst_dict_set_present:
  "k \<in> fst ` set d \<Longrightarrow> map fst (dict_set k v d) = map fst d"
proof (induction d)
  case Nil
  then show ?case by simp
next
  case (Cons p d)
  obtain k' v' where p: "p = (k', v')" by (cases p)
  show ?case
  proof (cases "k' = k")
    case True
    then show ?thesis by (simp add: p)
  next
    case False
    with Cons.prems p have "k \<in> fst ` set d" by auto
    from Cons.IH [OF this] False show ?thesis by (simp add: p)
  qed
qed

lemma map_fst_dict_set_absent:
  "k \<notin> fst ` set d \<Longrightarrow> map fst (dict_set k v d) = map fst d @ [k]"
proof (induction d)
  case Nil
  then show ?case by simp
next
  case (Cons p d)
  obtain k' v' where p: "p = (k', v')" by (cases p)
  from Cons.prems p have ne: "k' \<noteq> k" and "k \<notin> fst ` set d" by auto
  from Cons.IH [OF this(2)] ne show ?case by (simp add: p)
qed

lemma distinct_dict_set: "distinct (map fst d) \<Longrightarrow> distinct (map fst (dict_set k v d))"
proof (cases "k \<in> fst ` set d")
  case True
  then show "distinct (map fst d) \<Longrightarrow> ?thesis"
    by (simp add: map_fst_dict_set_present)
next
  case False
  then show "distinct (map fst d) \<Longrightarrow> ?thesis"
    by (simp add: map_fst_dict_set_absent)
qed

lemma snd_dict_set_None:
  "\<forall>p \<in> set d. snd p = None \<Longrightarrow> \<forall>p \<in> set (dict_set k None d). snd p = None"
proof (induction d)
  case Nil
  then show ?case by simp
next
  case (Cons p d)
  obtain k' v' where p: "p = (k', v')" by (cases p)
  from Cons.prems have "\<forall>p \<in> set d. snd p = None" by simp
  from Cons.IH [OF this] Cons.prems show ?case by (simp add: p)
qed

lemma fresh_register_dump:
  assumes "fresh_lib_paths (lib_paths d)"
  shows "fresh_lib_paths (lib_paths (fst (register_dump f (d, lg))))"
proof -
  obtain root_dir file_name where f: "f = (root_dir, file_name)" by (cases f)
  from assms have dst: "distinct (map fst (lib_paths d))"
    and nn: "\<forall>p \<in> set (lib_paths d). snd p = None"
    by (simp_all add: fresh_lib_paths_def)
  have "\<And>k. fresh_lib_paths (dict_set k None (lib_paths d))"
    using distinct_dict_set [OF dst] snd_dict_set_None [OF nn] by (simp add: fresh_lib_paths_def)
  then show ?thesis
    using assms by (simp add: f register_dump_def Let_def)
qed

lemma fresh_fold_register_dump:
  "fresh_lib_paths (lib_paths d) \<Longrightarrow> fresh_lib_paths (lib_paths (fst (fold register_dump fs (d, lg))))"
proof (induction fs arbitrary: d lg)
  case Nil
  then show ?case by simp
next
  case (Cons f fs)
  obtain d1 lg1 where a: "register_dump f (d, lg) = (d1, lg1)"
    by (cases "register_dump f (d, lg)")
  with fresh_register_dump [OF Cons.prems, of f lg] have "fresh_lib_paths (lib_paths d1)" by simp
  from Cons.IH [OF this, of lg1] a show ?case by simp
qed

lemma fresh_collect_dumps: "fresh_lib_paths (lib_paths (fst (collect_dumps e dump_dir lg)))"
  unfolding collect_dumps_def
  by (rule fresh_fold_register_dump) (simp add: fresh_lib_paths_def no_dumps_def)

lemma path_join2_nonempty: "b \<noteq> [] \<Longrightarrow> path_join2 path b \<noteq> []"
  by (simp add: path_join2_def)

lemma path_join_single_nonempty: "b \<noteq> [] \<Longrightarrow> path_join root_dir [b] \<noteq> []"
  by (simp add: path_join_def path_join2_nonempty)

lemma map_of_resolve_file:
  "map_of (resolve_file f lp) name =
     (case map_of lp name of
        None \<Rightarrow> None
      | Some v \<Rightarrow> if snd f = name \<and> falsy v then Some (Some (path_join (fst f) [name])) else Some v)"
  by (cases f) (auto simp: resolve_file_def map_of_dict_set split: option.splits)

lemma map_of_fold_resolve_file:
  assumes "map_of lp name = Some v" and "name \<noteq> []"
  shows "map_of (fold resolve_file files lp) name =
           Some (if falsy v then (case first_match name files of None \<Rightarrow> v | Some p \<Rightarrow> Some p)
                 else v)"
  using assms(1)
proof (induction files arbitrary: lp v)
  case Nil
  then show ?case by (simp add: first_match_def)
next
  case (Cons f files)
  show ?case
  proof (cases "snd f = name \<and> falsy v")
    case True
    let ?p = "path_join (fst f) [name]"
    have step: "map_of (resolve_file f lp) name = Some (Some ?p)"
      using Cons.prems True by (simp add: map_of_resolve_file)
    have nf: "\<not> falsy (Some ?p)"
      using path_join_single_nonempty [OF assms(2)] by (simp add: falsy_def)
    from Cons.IH [OF step] nf True show ?thesis
      by (simp add: first_match_def)
  next
    case False
    have step: "map_of (resolve_file f lp) name = Some v"
      using Cons.prems False by (auto simp: map_of_resolve_file)
    from Cons.IH [OF step] False show ?thesis
      by (auto simp: first_match_def)
  qed
qed

lemma map_of_fold_resolve_file_nomatch:
  "name \<notin> snd ` set files \<Longrightarrow> map_of (fold resolve_file files lp) name = map_of lp name"
proof (induction files arbitrary: lp)
  case Nil
  then show ?case by simp
next
  case (Cons f files)
  from Cons.prems have ne: "snd f \<noteq> name" and rest: "name \<notin> snd ` set files" by auto
  have "map_of (resolve_file f lp) name = map_of lp name"
    using ne by (simp add: map_of_resolve_file split: option.splits)
  with Cons.IH [OF rest, of "resolve_file f lp"] show ?case by simp
qed

lemma resolve_dirs_concat:
  "resolve_dirs e lib_dirs lp = fold resolve_file (concat (map (iterate_files e) lib_dirs)) lp"
proof -
  have "resolve_dir e = (\<lambda>lib_dir. fold resolve_file (iterate_files e lib_dir))"
    by (rule ext)+ (simp add: resolve_dir_def)
  then show ?thesis
    by (induction lib_dirs arbitrary: lp) (simp_all add: resolve_dirs_def)
qed

lemma map_fst_resolve_file: "map fst (resolve_file f lp) = map fst lp"
proof (cases f)
  case (Pair root_dir lib_name)
  show ?thesis
  proof (cases "map_of lp lib_name")
    case None
    then show ?thesis by (simp add: Pair resolve_file_def)
  next
    case (Some v)
    then have "(lib_name, v) \<in> set lp"
      by (rule map_of_SomeD)
    then have "lib_name \<in> fst ` set lp"
      by force
    then show ?thesis
      by (simp add: Pair resolve_file_def Some map_fst_dict_set_present)
  qed
qed

lemma map_fst_fold_resolve_file: "map fst (fold resolve_file files lp) = map fst lp"
  by (induction files arbitrary: lp) (simp_all add: map_fst_resolve_file)

lemma registered_None:
  assumes "name \<in> fst ` set (lib_paths (fst (collect_dumps e dump_dir lg)))"
  shows "map_of (lib_paths (fst (collect_dumps e dump_dir []))) name = Some None"
proof -
  let ?lp = "lib_paths (fst (collect_dumps e dump_dir []))"
  have fr: "fresh_lib_paths ?lp" by (rule fresh_collect_dumps)
  have "name \<in> fst ` set ?lp"
    using assms fst_collect_dumps_log [of e dump_dir lg "[]"] by simp
  then obtain v where "(name, v) \<in> set ?lp" by auto
  moreover from this fr have "v = None" by (auto simp: fresh_lib_paths_def)
  ultimately show ?thesis
    using fr by (simp add: fresh_lib_paths_def)
qed

lemma resolved_lookup:
  assumes "name \<in> fst ` set (lib_paths (fst (collect_dumps e dump_dir lg)))"
    and "name \<noteq> []"
  shows "map_of (lib_paths (resolved_dumps e dump_dir lib_dirs)) name
           = Some (first_match name (concat (map (iterate_files e) lib_dirs)))"
proof -
  let ?lp = "lib_paths (fst (collect_dumps e dump_dir []))"
  have fr: "fresh_lib_paths ?lp" by (rule fresh_collect_dumps)
  have "name \<in> fst ` set ?lp"
    using assms(1) fst_collect_dumps_log [of e dump_dir lg "[]"] by simp
  then obtain v where "(name, v) \<in> set ?lp" by auto
  moreover from this fr have "v = None" by (auto simp: fresh_lib_paths_def)
  ultimately have m: "map_of ?lp name = Some None"
    using fr by (simp add: fresh_lib_paths_def)
  from map_of_fold_resolve_file [OF m assms(2)] show ?thesis
    by (simp add: resolved_dumps_def Let_def resolve_dirs_concat falsy_def split: option.splits)
qed

lemma distinct_resolved: "distinct (map fst (lib_paths (resolved_dumps e dump_dir lib_dirs)))"
  using fresh_collect_dumps [of e dump_dir "[]"]
  by (simp add: resolved_dumps_def Let_def resolve_dirs_concat map_fst_fold_resolve_file
        fresh_lib_paths_def)

lemma first_match_append:
  "first_match name (xs @ ys) = (case first_match name xs of None \<Rightarrow> first_match name ys | Some p \<Rightarrow> Some p)"
  by (induction xs) (auto simp: first_match_def)

text \<open>
  C5. \<open>_ScanLibDirs\<close> runs its third loop over \<open>lib_paths\<close> as the second loop leaves it.
  For a registered library with a non-empty name, the one item of \<open>lib_paths\<close> with
  that name holds the path of the first file of exactly that name in the listings of the
  search directories, taken in the order of the list, and \<open>None\<close> when there is no such
  file; later files of that name change nothing. In particular, with the directories
  [vendor, system] and a file of that name below the vendor directory, the path bound is
  that of a file below the vendor directory.
\<close>

theorem ScanLibDirs_first_match:
  assumes "lib_name \<in> fst ` set (lib_paths (fst (collect_dumps e dump_dir lg)))"
    and "lib_name \<noteq> []"
  shows "ScanLibDirs e self dump_dir lib_dirs lg =
           scan_libs e self (resolved_dumps e dump_dir lib_dirs)
             (lib_paths (resolved_dumps e dump_dir lib_dirs)) 0 (snd (collect_dumps e dump_dir lg))
         \<and> (\<forall>v. (lib_name, v) \<in> set (lib_paths (resolved_dumps e dump_dir lib_dirs))
                \<longleftrightarrow> v = first_match lib_name (concat (map (iterate_files e) lib_dirs)))
         \<and> (lib_dirs = [vendor, system] \<and> lib_name \<in> snd ` set (iterate_files e vendor)
              \<longrightarrow> (\<exists>root_dir. (root_dir, lib_name) \<in> set (iterate_files e vendor)
                    \<and> (lib_name, Some (path_join root_dir [lib_name]))
                         \<in> set (lib_paths (resolved_dumps e dump_dir lib_dirs))))"
proof -
  let ?lp = "lib_paths (resolved_dumps e dump_dir lib_dirs)"
  let ?all = "concat (map (iterate_files e) lib_dirs)"
  have m: "map_of ?lp lib_name = Some (first_match lib_name ?all)"
    using assms by (rule resolved_lookup)
  have dst: "distinct (map fst ?lp)" by (rule distinct_resolved)
  have items: "(lib_name, v) \<in> set ?lp \<longleftrightarrow> v = first_match lib_name ?all" for v
  proof
    assume "(lib_name, v) \<in> set ?lp"
    then have "map_of ?lp lib_name = Some v" using dst by simp
    with m show "v = first_match lib_name ?all" by simp
  next
    assume "v = first_match lib_name ?all"
    with m show "(lib_name, v) \<in> set ?lp" by (simp add: map_of_SomeD)
  qed
  have vendor_first: "\<exists>root_dir. (root_dir, lib_name) \<in> set (iterate_files e vendor)
                    \<and> (lib_name, Some (path_join root_dir [lib_name])) \<in> set ?lp"
    if ld: "lib_dirs = [vendor, system]" and ex: "lib_name \<in> snd ` set (iterate_files e vendor)"
  proof -
    from ex have "\<exists>f \<in> set (iterate_files e vendor). snd f = lib_name" by auto
    then obtain f where f: "find (\<lambda>f. snd f = lib_name) (iterate_files e vendor) = Some f"
      by (cases "find (\<lambda>f. snd f = lib_name) (iterate_files e vendor)") (auto simp: find_None_iff)
    then have fin: "f \<in> set (iterate_files e vendor)" and fn: "snd f = lib_name"
      by (auto simp: find_Some_iff)
    have "first_match lib_name ?all = Some (path_join (fst f) [lib_name])"
      using f by (simp add: ld first_match_append) (simp add: first_match_def)
    with items have "(lib_name, Some (path_join (fst f) [lib_name])) \<in> set ?lp" by simp
    moreover from fn have "(fst f, lib_name) = f" by (cases f) simp
    with fin have "(fst f, lib_name) \<in> set (iterate_files e vendor)" by simp
    ultimately show ?thesis by blast
  qed
  show ?thesis
    using ScanLibDirs_resolved [of e self dump_dir lib_dirs lg] items vendor_first by blast
qed

theorem ScanLibDirs_first_match_witness:
  "''libfoo.so'' \<in> fst ` set (lib_paths (fst (collect_dumps demo_env demo_golden [])))
   \<and> ''libfoo.so'' \<noteq> []
   \<and> (''libfoo.so'', Some ''/tmp/vendor_lib/libfoo.so'')
        \<in> set (lib_paths (resolved_dumps demo_env demo_golden demo_lib_dirs))
   \<and> (''libfoo.so'', Some ''/tmp/system_lib/libfoo.so'')
        \<notin> set (lib_paths (resolved_dumps demo_env demo_golden demo_lib_dirs))"
proof -
  have h1: "''libfoo.so'' \<in> fst ` set (lib_paths (fst (collect_dumps demo_env demo_golden [])))"
    by code_simp
  have h2: "''libfoo.so'' \<noteq> []" by simp
  have f: "first_match ''libfoo.so'' (concat (map (iterate_files demo_env) demo_lib_dirs))
             = Some ''/tmp/vendor_lib/libfoo.so''"
    by code_simp
  note r = conjunct1 [OF conjunct2 [OF ScanLibDirs_first_match [OF h1 h2, of demo_self demo_lib_dirs]]]
  from r f have a: "(''libfoo.so'', Some ''/tmp/vendor_lib/libfoo.so'')
        \<in> set (lib_paths (resolved_dumps demo_env demo_golden demo_lib_dirs))"
    by simp
  from r f have b: "(''libfoo.so'', Some ''/tmp/system_lib/libfoo.so'')
        \<notin> set (lib_paths (resolved_dumps demo_env demo_golden demo_lib_dirs))"
    by simp
  show ?thesis
    by (rule conjI h1 h2 a b)+
qed

text \<open>
  C6. A registered library of which no search directory lists a file keeps the value
  \<open>None\<close> in \<open>lib_paths\<close>; the loop body for it writes the one log entry
  \<open>Not found on target\<close>, calls no differ, logs no \<open>Pass\<close> and returns the count
  it was given; the count of a whole loop is the same with and without that item.
\<close>

theorem ScanLibDirs_not_found:
  assumes "lib_name \<in> fst ` set (lib_paths (fst (collect_dumps e dump_dir lg0)))"
    and "lib_name \<notin> snd ` (\<Union>lib_dir \<in> set lib_dirs. set (iterate_files e lib_dir))"
  shows "(\<forall>v. (lib_name, v) \<in> set (lib_paths (resolved_dumps e dump_dir lib_dirs)) \<longleftrightarrow> v = None)
         \<and> scan_lib e self d (lib_name, None) n lg = (Inr n, lg @ [InfoNotFound lib_name])
         \<and> fst (scan_libs e self d (pre @ (lib_name, None) # post) n lg)
             = fst (scan_libs e self d (pre @ post) n lg)"
proof -
  let ?lp = "lib_paths (resolved_dumps e dump_dir lib_dirs)"
  have nm: "lib_name \<notin> snd ` set (concat (map (iterate_files e) lib_dirs))"
    using assms(2) by auto
  have m: "map_of ?lp lib_name = Some None"
    using registered_None [OF assms(1)] map_of_fold_resolve_file_nomatch [OF nm]
    by (simp add: resolved_dumps_def Let_def resolve_dirs_concat)
  have dst: "distinct (map fst ?lp)" by (rule distinct_resolved)
  have items: "(lib_name, v) \<in> set ?lp \<longleftrightarrow> v = None" for v
  proof
    assume "(lib_name, v) \<in> set ?lp"
    then have "map_of ?lp lib_name = Some v" using dst by simp
    with m show "v = None" by simp
  next
    assume "v = None"
    with m show "(lib_name, v) \<in> set ?lp" by (simp add: map_of_SomeD)
  qed
  have step: "scan_lib e self d (lib_name, None) n lg = (Inr n, lg @ [InfoNotFound lib_name])"
    by (rule scan_lib_not_found) (simp add: falsy_def)
  have cnt: "fst (scan_libs e self d (pre @ (lib_name, None) # post) n lg)
             = fst (scan_libs e self d (pre @ post) n lg)"
    by (simp add: fst_scan_libs lib_incompatible_def)
  show ?thesis
    using items step cnt by blast
qed

theorem ScanLibDirs_not_found_witness:
  "''libbaz.so'' \<in> fst ` set (lib_paths (fst (collect_dumps demo_env demo_golden [])))
   \<and> ''libbaz.so'' \<notin> snd ` (\<Union>lib_dir \<in> set demo_lib_dirs. set (iterate_files demo_env lib_dir))
   \<and> (''libbaz.so'', None) \<in> set (lib_paths (resolved_dumps demo_env demo_golden demo_lib_dirs))
   \<and> scan_lib demo_env demo_self demo_dumps (''libbaz.so'', None) 1 []
       = (Inr 1, [] @ [InfoNotFound ''libbaz.so''])"
proof -
  have h1: "''libbaz.so'' \<in> fst ` set (lib_paths (fst (collect_dumps demo_env demo_golden [])))"
    by code_simp
  have h2: "''libbaz.so'' \<notin> snd ` (\<Union>lib_dir \<in> set demo_lib_dirs. set (iterate_files demo_env lib_dir))"
    by code_simp
  note r = ScanLibDirs_not_found [OF h1 h2]
  from conjunct1 [OF r] have a: "(''libbaz.so'', None)
       \<in> set (lib_paths (resolved_dumps demo_env demo_golden demo_lib_dirs))"
    by simp
  show ?thesis
    by (rule conjI h1 h2 a conjunct1 [OF conjunct2 [OF r]])+
qed

subsection \<open>The test method\<close>

lemma scan_64_cases:
  "scan_64 e self dump_dir_64 n lg =
     (if is64Bit self then
        (if \<not> isdir e dump_dir_64 then (Inl (no_dump_files self), lg @ [InfoCheck64])
         else (Inr (n + incompatible_count e self dump_dir_64 [vendor_lib64 self, system_lib64 self]),
               snd (ScanLibDirs e self dump_dir_64 [vendor_lib64 self, system_lib64 self]
                      (lg @ [InfoCheck64]))))
      else (Inr n, lg))"
proof -
  from ScanLibDirs_Inr obtain lg2 where
    "ScanLibDirs e self dump_dir_64 [vendor_lib64 self, system_lib64 self] (lg @ [InfoCheck64])
       = (Inr (incompatible_count e self dump_dir_64 [vendor_lib64 self, system_lib64 self]), lg2)"
    by blast
  then show ?thesis
    by (simp add: scan_64_def Let_def)
qed

text \<open>
  C4, as the claim states it, fails on a 64-bit device whose 32-bit golden directory
  exists and whose 64-bit golden directory does not: the method fails with
  \<open>No dump files\<close>, but only after the 32-bit libraries have been examined, as the log
  shows.
\<close>

theorem testAbiCompatibility_scans_32_before_64:
  "is64Bit demo_self
   \<and> \<not> isdir demo_env (path_join DUMP_DIR [sdk_version demo_self, ''arm64''])
   \<and> testAbiCompatibility demo_env demo_self [] =
       (Inl (TestFailure ''No dump files for SDK version 26''),
        [InfoCheck32,
         WarningUnknownDump ''vts/testcases/vndk/golden/26/arm/README'',
         DebugLibSymbols ''/tmp/vendor_lib/libfoo.so'' [''foo'', ''q r''],
         DebugLibVtables ''/tmp/vendor_lib/libfoo.so''
           [(''V'', [(8, ''f''), (16, ''f'')]), (''W'', [(0, ''g'')])],
         ErrorMissingSymbols ''vendor_lib/libfoo.so'' [''bar''],
         ErrorVtableDifference ''vendor_lib/libfoo.so'' [(''V'', ''f'', ''24'', ''8,16'')],
         DebugLibSymbols ''/tmp/system_lib/hw/libbar.so'' [''a'', ''b''],
         InfoPass ''system_lib/hw/libbar.so'',
         InfoNotFound ''libbaz.so'',
         ExceptionCannotDiffSymbols ''system_lib/libqux.so'' IOError,
         InfoCheck64])
   \<and> list_ex library_entry (snd (testAbiCompatibility demo_env demo_self []))"
  by code_simp

text \<open>
  C4, amended. For a known ABI: when the 32-bit golden directory is absent the method
  fails with \<open>No dump files\<close> having written only the \<open>Check 32-bit libraries\<close> entry, so
  before any library is examined; when the device is 64-bit and only the 64-bit
  directory is absent it fails with the same error after the whole 32-bit scan and before
  any 64-bit library is examined; and it succeeds if and only if the golden directory
  exists for each required width and the incompatible counts of the required widths sum
  to zero.
\<close>

theorem testAbiCompatibility_dump_dirs:
  assumes "abi_names (cpu_abi self) = Some (abi_32, abi_64)"
  shows "(\<not> isdir e (path_join DUMP_DIR [sdk_version self, abi_32])
            \<longrightarrow> testAbiCompatibility e self lg = (Inl (no_dump_files self), lg @ [InfoCheck32]))
         \<and> (isdir e (path_join DUMP_DIR [sdk_version self, abi_32]) \<and> is64Bit self
              \<and> \<not> isdir e (path_join DUMP_DIR [sdk_version self, abi_64])
            \<longrightarrow> testAbiCompatibility e self lg =
                  (Inl (no_dump_files self),
                   snd (ScanLibDirs e self (path_join DUMP_DIR [sdk_version self, abi_32])
                          [vendor_lib self, system_lib self] (lg @ [InfoCheck32]))
                     @ [InfoCheck64]))
         \<and> (fst (testAbiCompatibility e self lg) = Inr () \<longleftrightarrow>
              isdir e (path_join DUMP_DIR [sdk_version self, abi_32])
              \<and> (is64Bit self \<longrightarrow> isdir e (path_join DUMP_DIR [sdk_version self, abi_64]))
              \<and> incompatible_count e self (path_join DUMP_DIR [sdk_version self, abi_32])
                   [vendor_lib self, system_lib self]
                 + (if is64Bit self
                    then incompatible_count e self (path_join DUMP_DIR [sdk_version self, abi_64])
                           [vendor_lib64 self, system_lib64 self]
                    else 0) = 0)"
proof -
  let ?d32 = "path_join DUMP_DIR [sdk_version self, abi_32]"
  let ?d64 = "path_join DUMP_DIR [sdk_version self, abi_64]"
  let ?n32 = "incompatible_count e self ?d32 [vendor_lib self, system_lib self]"
  from ScanLibDirs_Inr obtain lg2 where
    s: "ScanLibDirs e self ?d32 [vendor_lib self, system_lib self] (lg @ [InfoCheck32])
          = (Inr ?n32, lg2)"
    by blast
  have a: "testAbiCompatibility e self lg = (Inl (no_dump_files self), lg @ [InfoCheck32])"
    if "\<not> isdir e ?d32"
    using assms that by (simp add: testAbiCompatibility_def Let_def)
  have t: "testAbiCompatibility e self lg =
        (case scan_64 e self ?d64 ?n32 lg2 of
           (Inl err, lg3) \<Rightarrow> (Inl err, lg3)
         | (Inr error_count', lg3) \<Rightarrow>
             if error_count' = 0 then (Inr (), lg3)
             else (Inl (TestFailure (''Total number of errors: '' @ str_int (int error_count'))), lg3))"
    if "isdir e ?d32"
    using assms that s by (simp add: testAbiCompatibility_def Let_def)
  have b: "testAbiCompatibility e self lg = (Inl (no_dump_files self), lg2 @ [InfoCheck64])"
    if "isdir e ?d32 \<and> is64Bit self \<and> \<not> isdir e ?d64"
    using that by (simp add: t scan_64_cases)
  have c: "fst (testAbiCompatibility e self lg) = Inr () \<longleftrightarrow>
              isdir e ?d32 \<and> (is64Bit self \<longrightarrow> isdir e ?d64)
              \<and> ?n32 + (if is64Bit self
                    then incompatible_count e self ?d64 [vendor_lib64 self, system_lib64 self]
                    else 0) = 0"
  proof (cases "isdir e ?d32")
    case False
    then show ?thesis by (simp add: a)
  next
    case True
    then show ?thesis by (simp add: t scan_64_cases)
  qed
  show ?thesis
    using a b c by (simp add: s)
qed

theorem testAbiCompatibility_dump_dirs_witness:
  "abi_names (cpu_abi demo_self) = Some (''arm'', ''arm64'')
   \<and> testAbiCompatibility demo_env demo_self [] =
       (Inl (no_dump_files demo_self),
        snd (ScanLibDirs demo_env demo_self (path_join DUMP_DIR [sdk_version demo_self, ''arm''])
               [vendor_lib demo_self, system_lib demo_self] ([] @ [InfoCheck32]))
          @ [InfoCheck64])
   \<and> fst (testAbiCompatibility demo_env (demo_self\<lparr>sdk_version := ''27''\<rparr>) [])
       = Inl (no_dump_files (demo_self\<lparr>sdk_version := ''27''\<rparr>))"
proof -
  have h: "abi_names (cpu_abi demo_self) = Some (''arm'', ''arm64'')"
    by code_simp
  have c: "isdir demo_env (path_join DUMP_DIR [sdk_version demo_self, ''arm'']) \<and> is64Bit demo_self
              \<and> \<not> isdir demo_env (path_join DUMP_DIR [sdk_version demo_self, ''arm64''])"
    by code_simp
  from conjunct1 [OF conjunct2 [OF testAbiCompatibility_dump_dirs [OF h, of demo_env "[]"]]] c
  have a: "testAbiCompatibility demo_env demo_self [] =
       (Inl (no_dump_files demo_self),
        snd (ScanLibDirs demo_env demo_self (path_join DUMP_DIR [sdk_version demo_self, ''arm''])
               [vendor_lib demo_self, system_lib demo_self] ([] @ [InfoCheck32]))
          @ [InfoCheck64])"
    by (rule mp)
  have b: "fst (testAbiCompatibility demo_env (demo_self\<lparr>sdk_version := ''27''\<rparr>) [])
       = Inl (no_dump_files (demo_self\<lparr>sdk_version := ''27''\<rparr>))"
    by code_simp
  show ?thesis
    by (rule conjI h a b)+
qed

end
